theory Spec2Isabelle
  imports Main "HOL-Library.AList"
begin

section \<open>Python values used by the Ocularum backend\<close>

text \<open>
  The settings dictionaries of the program are \<open>Dict[str, Any]\<close>. Their values are
  modelled by the JSON scalars the program stores in them. Strings are byte lists, and
  \<open>str.lower()\<close> is modelled on the ASCII letters (Twitch logins are ASCII); every other
  byte is left as it is.
\<close>

datatype pyval = PNone | PBool bool | PInt int | PStr string

type_synonym pydict = "string \<rightharpoonup> pyval"

datatype py_error = KeyError string | UnicodeDecodeError

fun truthy :: "pyval \<Rightarrow> bool" where
  "truthy PNone = False"
| "truthy (PBool b) = b"
| "truthy (PInt i) = (i \<noteq> 0)"
| "truthy (PStr s) = (s \<noteq> [])"

definition dict_get :: "('k \<rightharpoonup> 'v) \<Rightarrow> 'k \<Rightarrow> 'v \<Rightarrow> 'v" where
  "dict_get d k dflt = (case d k of None \<Rightarrow> dflt | Some v \<Rightarrow> v)"

definition lower_char :: "char \<Rightarrow> char" where
  "lower_char c =
     (case map_of (zip ''ABCDEFGHIJKLMNOPQRSTUVWXYZ'' ''abcdefghijklmnopqrstuvwxyz'') c of
        None \<Rightarrow> c
      | Some d \<Rightarrow> d)"

definition lower :: "string \<Rightarrow> string" where
  "lower s = map lower_char s"

text \<open>\<open>str(v)\<close>, as an f-string formats a value.\<close>

definition digit_char :: "nat \<Rightarrow> char" where
  "digit_char d = ''0123456789'' ! d"

fun nat_digits :: "nat \<Rightarrow> string" where
  "nat_digits n = (if n < 10 then [digit_char n] else nat_digits (n div 10) @ [digit_char (n mod 10)])"

fun py_str :: "pyval \<Rightarrow> string" where
  "py_str PNone = ''None''"
| "py_str (PBool b) = (if b then ''True'' else ''False'')"
| "py_str (PInt i) = (if i < 0 then ''-'' @ nat_digits (nat (- i)) else nat_digits (nat i))"
| "py_str (PStr s) = s"

fun py_type_name :: "pyval \<Rightarrow> string" where
  "py_type_name PNone = ''NoneType''"
| "py_type_name (PBool b) = ''bool''"
| "py_type_name (PInt i) = ''int''"
| "py_type_name (PStr s) = ''str''"

text \<open>
  \<open>' '.join(cmd)\<close> raises \<open>TypeError\<close> at the first item that is not a string;
  \<open>join_error\<close> gives the text of that exception, if any.
\<close>

fun join_error :: "nat \<Rightarrow> pyval list \<Rightarrow> string option" where
  "join_error i [] = None"
| "join_error i (PStr s # vs) = join_error (Suc i) vs"
| "join_error i (v # vs) =
     Some (''sequence item '' @ nat_digits i @ '': expected str instance, '' @ py_type_name v @ '' found'')"

fun str_items :: "pyval list \<Rightarrow> string list" where
  "str_items [] = []"
| "str_items (PStr s # vs) = s # str_items vs"
| "str_items (v # vs) = str_items vs"

text \<open>\<open>xs[:k]\<close>: a negative bound counts from the end.\<close>

definition py_slice_to :: "'a list \<Rightarrow> int \<Rightarrow> 'a list" where
  "py_slice_to xs k = (if 0 \<le> k then take (nat k) xs else take (length xs - nat (- k)) xs)"

section \<open>The persisted settings document (autotune/manager.py)\<close>

text \<open>
  The settings file holds one JSON object. Every key of it is read with a default
  (\<open>settings.get(key, default)\<close>), so every field of the document is optional. The
  dictionary of the streamers is kept in insertion order, as Python keeps it: a list of
  keys and values, read with \<open>map_of\<close> and written with \<open>AList.update\<close> and
  \<open>AList.delete\<close>. In the file the policy of a streamer is a JSON object, a value.
\<close>

record settings_doc =
  doc_autotuned_streamers :: "(string \<times> pydict) list option"
  doc_check_interval :: "int option"
  doc_max_concurrent_streams :: "int option"
  doc_default_quality :: "pyval option"
  doc_auto_start_on_boot :: "pyval option"
  doc_notification_settings :: "pydict option"

text \<open>
  What a read of the settings path meets: no file; a file whose \<open>open\<close> or \<open>read\<close>
  raises \<open>IOError\<close>; a file whose bytes are not text in the locale's encoding (the text-mode
  \<open>read\<close> inside \<open>json.load\<close> raises \<open>UnicodeDecodeError\<close>, a \<open>ValueError\<close> that is
  neither a \<open>JSONDecodeError\<close> nor an \<open>IOError\<close>); text that is not JSON
  (\<open>JSONDecodeError\<close>); or a settings object, whose keys, where present, hold values of
  the types the manager expects.
\<close>

datatype settings_file =
    Missing
  | IOFailure
  | BadEncoding
  | BadJSON
  | Document settings_doc

text \<open>
  What a write of the settings path meets: it succeeds; \<open>open(path, 'w')\<close> raises
  \<open>IOError\<close> and the file stays as it was; or \<open>json.dump\<close> raises \<open>IOError\<close> after the
  file was truncated, which leaves text that is not a JSON document.
\<close>

datatype write_outcome = Written | OpenFails | DumpFails

definition default_notification_settings :: pydict where
  "default_notification_settings =
     [''enabled'' \<mapsto> PBool True, ''sound'' \<mapsto> PBool True, ''popup'' \<mapsto> PBool True]"

definition default_settings :: settings_doc where
  "default_settings =
     \<lparr> doc_autotuned_streamers = Some [],
       doc_check_interval = Some 60,
       doc_max_concurrent_streams = Some 4,
       doc_default_quality = Some (PStr ''best''),
       doc_auto_start_on_boot = Some (PBool True),
       doc_notification_settings = Some default_notification_settings \<rparr>"

text \<open>\<open>_save_settings(settings)\<close> with an explicit document: the flag returned and the file
  afterwards.\<close>

fun write_settings :: "write_outcome \<Rightarrow> settings_doc \<Rightarrow> settings_file \<Rightarrow> bool \<times> settings_file" where
  "write_settings Written d f = (True, Document d)"
| "write_settings OpenFails d f = (False, f)"
| "write_settings DumpFails d f = (False, BadJSON)"

text \<open>\<open>_load_settings\<close>: the document returned and the file afterwards, or the exception
  that leaves the function.\<close>

fun load_settings :: "write_outcome \<Rightarrow> settings_file \<Rightarrow> py_error + (settings_doc \<times> settings_file)" where
  "load_settings w Missing = Inr (default_settings, snd (write_settings w default_settings Missing))"
| "load_settings w IOFailure = Inr (default_settings, IOFailure)"
| "load_settings w BadJSON = Inr (default_settings, BadJSON)"
| "load_settings w BadEncoding = Inl UnicodeDecodeError"
| "load_settings w (Document d) = Inr (d, Document d)"

section \<open>The stream handler (streamlink/stream_handler.py)\<close>

text \<open>
  A registry entry holds the process handle, the channel, the quality and the loop-clock
  reading at the start. The registry is a Python dictionary, kept here in insertion order.
\<close>

record stream_entry =
  process :: nat
  channel :: string
  quality :: pyval
  start_time :: int

record stream_handler =
  streamlink_path :: string
  active_streams :: "(string \<times> stream_entry) list"

text \<open>
  What one call of \<open>start_stream\<close> takes from outside: the hexadecimal text of
  \<open>os.urandom(4)\<close>, the outcome of \<open>asyncio.create_subprocess_exec\<close> on the command (the
  text of the exception raised, or the process), and the loop-clock reading.
\<close>

record start_env =
  urandom_hex :: string
  spawn :: "string list \<Rightarrow> string + nat"
  loop_time :: int

definition player_args :: "pydict \<Rightarrow> pyval list" where
  "player_args output_params =
     (case output_params ''player'' of
        None \<Rightarrow> []
      | Some p \<Rightarrow>
          [PStr ''--player'', p] @
          (case output_params ''player_args'' of
             None \<Rightarrow> []
           | Some a \<Rightarrow> [PStr ''--player-args'', a]))"

text \<open>
  \<open>start_stream\<close> up to its \<open>await\<close>: the result returned at once (\<open>Inl\<close>), or the
  stream id and the command handed to \<open>create_subprocess_exec\<close> (\<open>Inr\<close>).
\<close>

definition start_stream_prepare ::
  "string \<Rightarrow> string \<Rightarrow> pyval \<Rightarrow> pydict option \<Rightarrow> stream_handler \<Rightarrow> (bool \<times> string) + (string \<times> string list)" where
  "start_stream_prepare hex chan q params h =
     (if chan = [] then Inl (False, ''Channel name is required'')
      else
        (let url = ''https://twitch.tv/'' @ chan;
             stream_id = chan @ ''_'' @ py_str q @ ''_'' @ hex;
             output_params = (case params of None \<Rightarrow> Map.empty | Some p \<Rightarrow> p);
             cmd = [PStr (streamlink_path h), PStr url, q, PStr ''--twitch-disable-ads'']
                   @ player_args output_params
         in case join_error 0 cmd of
              Some msg \<Rightarrow> Inl (False, msg)
            | None \<Rightarrow> Inr (stream_id, str_items cmd)))"

text \<open>\<open>start_stream\<close> from the \<open>await\<close> on: registration, or the \<open>except\<close> branch.\<close>

definition start_stream_finish ::
  "string + nat \<Rightarrow> int \<Rightarrow> string \<Rightarrow> pyval \<Rightarrow> string \<Rightarrow> stream_handler \<Rightarrow> (bool \<times> string) \<times> stream_handler" where
  "start_stream_finish outcome now chan q stream_id h =
     (case outcome of
        Inl e \<Rightarrow> ((False, e), h)
      | Inr p \<Rightarrow>
          ((True, stream_id),
           h\<lparr>active_streams :=
               AList.update stream_id
                 \<lparr>process = p, channel = chan, quality = q, start_time = now\<rparr>
                 (active_streams h)\<rparr>))"

definition start_stream ::
  "start_env \<Rightarrow> string \<Rightarrow> pyval \<Rightarrow> pydict option \<Rightarrow> stream_handler \<Rightarrow> (bool \<times> string) \<times> stream_handler" where
  "start_stream env chan q params h =
     (case start_stream_prepare (urandom_hex env) chan q params h of
        Inl res \<Rightarrow> (res, h)
      | Inr (stream_id, cmd) \<Rightarrow>
          start_stream_finish (spawn env cmd) (loop_time env) chan q stream_id h)"

text \<open>
  What one call of \<open>stop_stream\<close> takes from outside: whether \<open>process.terminate()\<close>
  raises, how the wait of five seconds ends, and whether \<open>process.kill()\<close> raises.
\<close>

datatype wait_result = Exited | TimedOut | WaitRaises

record stop_env =
  terminate_raises :: bool
  wait_outcome :: wait_result
  kill_raises :: bool

definition stop_stream :: "stop_env \<Rightarrow> string \<Rightarrow> stream_handler \<Rightarrow> bool \<times> stream_handler" where
  "stop_stream env stream_id h =
     (if stream_id \<notin> fst ` set (active_streams h) then (False, h)
      else if terminate_raises env then (False, h)
      else
        (case wait_outcome env of
           WaitRaises \<Rightarrow> (False, h)
         | Exited \<Rightarrow> (True, h\<lparr>active_streams := AList.delete stream_id (active_streams h)\<rparr>)
         | TimedOut \<Rightarrow>
             if kill_raises env then (False, h)
             else (True, h\<lparr>active_streams := AList.delete stream_id (active_streams h)\<rparr>)))"

record stream_info =
  info_channel :: string
  info_quality :: pyval
  info_start_time :: int
  info_runtime :: int

definition get_active_streams :: "int \<Rightarrow> stream_handler \<Rightarrow> (string \<times> stream_info) list" where
  "get_active_streams now h =
     map (\<lambda>(stream_id, details).
            (stream_id,
             \<lparr>info_channel = channel details,
              info_quality = quality details,
              info_start_time = start_time details,
              info_runtime = now - start_time details\<rparr>))
         (active_streams h)"

section \<open>The autotune manager (autotune/manager.py)\<close>

text \<open>
  The fields of \<open>AutotuneManager\<close>. The handler it holds is part of the state. The event
  loop's task behind \<open>_check_task\<close> is an index into the task table of the event loop.
  \<open>twitch\<close> and \<open>notification_callback\<close> say whether the object was given.

  In memory the policy of a streamer is a dictionary object, and
  \<open>self.autotuned_streamers\<close> holds references: \<open>add\<close> stores the reference it is
  passed, and \<open>update\<close> changes the object in place, under every key and every variable
  that refers to it. So \<open>autotuned_streamers\<close> maps a key to the address of an object,
  \<open>objects\<close> is the memory of dictionary objects (what each address holds), and
  \<open>next_object\<close> is the address the next new dictionary gets. The memory is kept
  in the same record as the fields, since every reader and writer of a policy goes
  through both.
\<close>

record manager =
  twitch :: bool
  stream_handler :: stream_handler
  notification_callback :: bool
  settings :: settings_doc
  autotuned_streamers :: "(string \<times> nat) list"
  objects :: "nat \<Rightarrow> pydict"
  next_object :: nat
  check_interval :: int
  max_concurrent_streams :: int
  default_quality :: pyval
  running :: bool
  check_task :: "nat option"
  last_check_time :: int
  currently_live :: "string set"

text \<open>\<open>d[k]\<close> and \<open>d.get(k)\<close> for a dictionary of references: the object found.\<close>

definition deref :: "(nat \<Rightarrow> pydict) \<Rightarrow> (string \<times> nat) list \<Rightarrow> string \<Rightarrow> pydict option" where
  "deref objs d k = map_option objs (map_of d k)"

text \<open>A dictionary made anew (a literal, or what \<open>json.load\<close> returns): its address and
  the memory afterwards.\<close>

definition new_dict :: "pydict \<Rightarrow> manager \<Rightarrow> nat \<times> manager" where
  "new_dict d m =
     (next_object m,
      m\<lparr>objects := (objects m)(next_object m := d), next_object := Suc (next_object m)\<rparr>)"

text \<open>\<open>__init__\<close>, after the settings directory was made. The policies of the document
  loaded are new objects, one for each key.\<close>

definition init_manager ::
  "write_outcome \<Rightarrow> settings_file \<Rightarrow> bool \<Rightarrow> stream_handler \<Rightarrow> bool \<Rightarrow> py_error + (manager \<times> settings_file)" where
  "init_manager w f tw h cb =
     (case load_settings w f of
        Inl e \<Rightarrow> Inl e
      | Inr (d, f') \<Rightarrow>
          Inr (\<lparr> twitch = tw,
                 stream_handler = h,
                 notification_callback = cb,
                 settings = d,
                 autotuned_streamers =
                   (case doc_autotuned_streamers d of
                      None \<Rightarrow> []
                    | Some kvs \<Rightarrow> zip (map fst kvs) [0 ..< length kvs]),
                 objects =
                   (case doc_autotuned_streamers d of
                      None \<Rightarrow> (\<lambda>a. Map.empty)
                    | Some kvs \<Rightarrow> (\<lambda>a. if a < length kvs then snd (kvs ! a) else Map.empty)),
                 next_object =
                   (case doc_autotuned_streamers d of None \<Rightarrow> 0 | Some kvs \<Rightarrow> length kvs),
                 check_interval = (case doc_check_interval d of None \<Rightarrow> 60 | Some i \<Rightarrow> i),
                 max_concurrent_streams = (case doc_max_concurrent_streams d of None \<Rightarrow> 4 | Some i \<Rightarrow> i),
                 default_quality = (case doc_default_quality d of None \<Rightarrow> PStr ''best'' | Some q \<Rightarrow> q),
                 running = False,
                 check_task = None,
                 last_check_time = 0,
                 currently_live = {} \<rparr>, f'))"

text \<open>\<open>_save_settings()\<close> without an argument builds the document from the fields;
  \<open>json.dump\<close> writes what each policy object holds at that moment.\<close>

definition current_doc :: "manager \<Rightarrow> settings_doc" where
  "current_doc m =
     \<lparr> doc_autotuned_streamers =
         Some (map (\<lambda>(k, a). (k, objects m a)) (autotuned_streamers m)),
       doc_check_interval = Some (check_interval m),
       doc_max_concurrent_streams = Some (max_concurrent_streams m),
       doc_default_quality = Some (default_quality m),
       doc_auto_start_on_boot =
         Some (case doc_auto_start_on_boot (settings m) of None \<Rightarrow> PBool True | Some v \<Rightarrow> v),
       doc_notification_settings =
         Some (case doc_notification_settings (settings m) of
                 None \<Rightarrow> default_notification_settings | Some v \<Rightarrow> v) \<rparr>"

definition save_settings :: "write_outcome \<Rightarrow> manager \<Rightarrow> settings_file \<Rightarrow> bool \<times> settings_file" where
  "save_settings w m f = write_settings w (current_doc m) f"

definition default_streamer_settings :: "manager \<Rightarrow> pydict" where
  "default_streamer_settings m =
     [''quality'' \<mapsto> default_quality m, ''notifications'' \<mapsto> PBool True, ''auto_start'' \<mapsto> PBool True]"

text \<open>
  The three mutators return the flag, the manager and the file afterwards. The
  \<open>settings\<close> argument of \<open>add\<close> is \<open>None\<close> or a reference to a dictionary object;
  without it \<open>add\<close> makes a new dictionary with the defaults.
\<close>

definition add_autotuned_streamer ::
  "write_outcome \<Rightarrow> string \<Rightarrow> nat option \<Rightarrow> manager \<Rightarrow> settings_file \<Rightarrow> bool \<times> manager \<times> settings_file" where
  "add_autotuned_streamer w username opt_settings m f =
     (let username = lower username;
          (s, m1) = (case opt_settings of
                       None \<Rightarrow> new_dict (default_streamer_settings m) m
                     | Some a \<Rightarrow> (a, m));
          m' = m1\<lparr>autotuned_streamers := AList.update username s (autotuned_streamers m1)\<rparr>;
          (ok, f') = save_settings w m' f
      in (ok, m', f'))"

definition remove_autotuned_streamer ::
  "write_outcome \<Rightarrow> string \<Rightarrow> manager \<Rightarrow> settings_file \<Rightarrow> bool \<times> manager \<times> settings_file" where
  "remove_autotuned_streamer w username m f =
     (let username = lower username in
      if username \<in> fst ` set (autotuned_streamers m) then
        (let m' = m\<lparr>autotuned_streamers := AList.delete username (autotuned_streamers m)\<rparr>;
             (ok, f') = save_settings w m' f
         in (ok, m', f'))
      else (False, m, f))"

definition update_streamer_settings ::
  "write_outcome \<Rightarrow> string \<Rightarrow> pydict \<Rightarrow> manager \<Rightarrow> settings_file \<Rightarrow> bool \<times> manager \<times> settings_file" where
  "update_streamer_settings w username new_settings m f =
     (let username = lower username in
      case map_of (autotuned_streamers m) username of
        Some a \<Rightarrow>
          (let m' = m\<lparr>objects := (objects m)(a := objects m a ++ new_settings)\<rparr>;
               (ok, f') = save_settings w m' f
           in (ok, m', f'))
      | None \<Rightarrow> (False, m, f))"

text \<open>\<open>get_autotuned_streamers\<close> returns a copy of the outer dictionary: the same keys,
  referring to the same policy objects.\<close>

definition get_autotuned_streamers :: "manager \<Rightarrow> (string \<times> nat) list" where
  "get_autotuned_streamers m = autotuned_streamers m"

subsection \<open>One tick of the reconciliation\<close>

text \<open>
  A Python set is a list without duplicates here, in the order in which the set is
  iterated; \<open>_currently_live\<close> is only ever tested for membership and is a set. The
  difference \<open>live_streamers - self._currently_live\<close> keeps the order of its left
  operand. Every order in which Python may iterate \<open>newly_live\<close> is met by some order of
  the list given for \<open>live_streamers\<close>.

  What a tick takes from outside: the wall clock, the answer of the live-status provider
  (the \<open>user_login\<close> of each live stream that has one, or an exception), the loop clock
  read by \<open>get_active_streams\<close>, and for each channel what its \<open>start_stream\<close> meets.
  The notification callback is taken not to raise; the usernames it is called with are
  returned.
\<close>

datatype provider_outcome = ProviderAnswers "string list" | ProviderRaises

record tick_env =
  wall_time :: int
  provider :: provider_outcome
  loop_clock :: int
  launch :: "string \<Rightarrow> start_env"

text \<open>The \<open>try\<close> block of \<open>check_live_status\<close>, from the answer of the provider on.\<close>

definition live_usernames :: "provider_outcome \<Rightarrow> string list" where
  "live_usernames p =
     (case p of
        ProviderRaises \<Rightarrow> []
      | ProviderAnswers logins \<Rightarrow> remdups (map lower logins))"

definition check_live_status :: "provider_outcome \<Rightarrow> manager \<Rightarrow> string list" where
  "check_live_status p m =
     (if autotuned_streamers m = [] then []
      else if \<not> twitch m then []
      else live_usernames p)"

definition auto_start_enabled :: "manager \<Rightarrow> string \<Rightarrow> bool" where
  "auto_start_enabled m username =
     truthy (dict_get (dict_get (deref (objects m) (autotuned_streamers m)) (lower username) Map.empty)
               ''auto_start'' (PBool True))"

definition notifications_enabled :: "manager \<Rightarrow> string \<Rightarrow> bool" where
  "notifications_enabled m username =
     (truthy (dict_get (dict_get (deref (objects m) (autotuned_streamers m)) (lower username) Map.empty)
                ''notifications'' (PBool True))
      \<and> notification_callback m)"

text \<open>The first loop of \<open>start_autotuned_streams\<close>: the candidates, in order.\<close>

definition streams_to_start :: "int \<Rightarrow> manager \<Rightarrow> string list \<Rightarrow> string list" where
  "streams_to_start now m newly_live =
     (let active_streams = get_active_streams now (stream_handler m);
          active_channels = set (map (\<lambda>(_, details). lower (info_channel details)) active_streams)
      in filter (\<lambda>username. lower username \<notin> active_channels \<and> auto_start_enabled m username)
           newly_live)"

text \<open>The limit on the number of concurrent streams.\<close>

definition limit_streams :: "int \<Rightarrow> manager \<Rightarrow> string list \<Rightarrow> string list" where
  "limit_streams now m to_start =
     (let active_streams = get_active_streams now (stream_handler m) in
      if int (length active_streams) + int (length to_start) > max_concurrent_streams m
      then py_slice_to to_start (max_concurrent_streams m - int (length active_streams))
      else to_start)"

text \<open>
  The second loop: the quality is read by indexing \<open>self.autotuned_streamers[username]\<close>,
  which raises \<open>KeyError\<close> for a name that is no key. The state at that moment is
  returned with the exception.
\<close>

fun start_loop ::
  "(string \<Rightarrow> start_env) \<Rightarrow> string list \<Rightarrow> string list \<Rightarrow> manager \<Rightarrow> (py_error + string list) \<times> manager" where
  "start_loop env [] started m = (Inr started, m)"
| "start_loop env (username # rest) started m =
     (case deref (objects m) (autotuned_streamers m) username of
        None \<Rightarrow> (Inl (KeyError username), m)
      | Some s \<Rightarrow>
          (let q = dict_get s ''quality'' (default_quality m);
               ((success, stream_id), h') = start_stream (env username) username q None (stream_handler m)
           in start_loop env rest (if success then started @ [stream_id] else started)
                (m\<lparr>stream_handler := h'\<rparr>)))"

text \<open>\<open>start_autotuned_streams\<close>: the ids started or the exception, the usernames notified,
  and the manager afterwards.\<close>

definition start_autotuned_streams ::
  "tick_env \<Rightarrow> string list \<Rightarrow> manager \<Rightarrow> (py_error + string list) \<times> string list \<times> manager" where
  "start_autotuned_streams env live_streamers m =
     (if live_streamers = [] then (Inr [], [], m)
      else
        (let newly_live = filter (\<lambda>u. u \<notin> currently_live m) live_streamers;
             m1 = m\<lparr>currently_live := set live_streamers\<rparr>;
             to_start = streams_to_start (loop_clock env) m1 newly_live;
             notified = filter (notifications_enabled m1) to_start;
             admitted = limit_streams (loop_clock env) m1 to_start;
             (res, m2) = start_loop (launch env) admitted [] m1
         in (res, notified, m2)))"

definition check_and_start_streams ::
  "tick_env \<Rightarrow> manager \<Rightarrow> (py_error + string list) \<times> string list \<times> manager" where
  "check_and_start_streams env m =
     (let m1 = m\<lparr>last_check_time := wall_time env\<rparr>;
          live_streamers = check_live_status (provider env) m1
      in start_autotuned_streams env live_streamers m1)"

subsection \<open>The check loop as a task of the event loop\<close>

text \<open>
  \<open>start\<close> hands \<open>_check_loop\<close> to the event loop as a task and \<open>stop\<close> calls
  \<open>cancel()\<close> on it. The event loop keeps a table of tasks; \<open>_check_task\<close> is an index
  into it. A task is where its coroutine is suspended, and whether a cancellation was
  requested. \<open>_check_loop\<close> is suspended before its first step, in the provider calls
  of \<open>check_live_status\<close>, in \<open>create_subprocess_exec\<close> inside \<open>start_stream\<close> (with the
  channel, quality, stream id and command of the stream being launched, the candidates
  still to come and the ids started so far), or in \<open>asyncio.sleep\<close>.

  When the event loop resumes a task whose cancellation was requested, it raises
  \<open>CancelledError\<close> at the point of suspension. \<open>CancelledError\<close> derives from
  \<open>BaseException\<close> (Python 3.8 and later), so none of the \<open>except Exception\<close> clauses of
  \<open>start_stream\<close>, \<open>check_live_status\<close> and \<open>_check_loop\<close> catches it, and the task ends.
\<close>

datatype loop_pc =
    NotStarted
  | AwaitProvider
  | AwaitSpawn string pyval string "string list" "string list" "string list"
  | Sleeping
  | Finished

record task =
  pc :: loop_pc
  cancel_requested :: bool

record world =
  mgr :: manager
  tasks :: "task list"

definition start :: "world \<Rightarrow> world" where
  "start w =
     (if running (mgr w) then w
      else w\<lparr>mgr := (mgr w)\<lparr>running := True, check_task := Some (length (tasks w))\<rparr>,
              tasks := tasks w @ [\<lparr>pc = NotStarted, cancel_requested = False\<rparr>]\<rparr>)"

definition cancel :: "nat \<Rightarrow> task list \<Rightarrow> task list" where
  "cancel i ts = (if i < length ts then ts[i := (ts ! i)\<lparr>cancel_requested := True\<rparr>] else ts)"

definition stop :: "world \<Rightarrow> world" where
  "stop w =
     (if \<not> running (mgr w) then w
      else
        (let w1 = w\<lparr>mgr := (mgr w)\<lparr>running := False\<rparr>\<rparr> in
         case check_task (mgr w1) of
           None \<Rightarrow> w1
         | Some i \<Rightarrow> w1\<lparr>mgr := (mgr w1)\<lparr>check_task := None\<rparr>, tasks := cancel i (tasks w1)\<rparr>))"

definition is_running :: "world \<Rightarrow> bool" where
  "is_running w = running (mgr w)"

text \<open>
  The second loop of \<open>start_autotuned_streams\<close>, run until the next suspension: a
  candidate whose \<open>start_stream\<close> returns before its \<open>await\<close> is passed over at once; a
  \<open>KeyError\<close> leaves the tick and is logged by \<open>_check_loop\<close>, which goes to sleep, as
  it does when the candidates are used up.
\<close>

fun advance :: "(string \<Rightarrow> start_env) \<Rightarrow> string list \<Rightarrow> string list \<Rightarrow> manager \<Rightarrow> loop_pc" where
  "advance env [] started m = Sleeping"
| "advance env (username # rest) started m =
     (case deref (objects m) (autotuned_streamers m) username of
        None \<Rightarrow> Sleeping
      | Some s \<Rightarrow>
          (let q = dict_get s ''quality'' (default_quality m) in
           case start_stream_prepare (urandom_hex (env username)) username q None (stream_handler m) of
             Inl res \<Rightarrow> advance env rest started m
           | Inr (stream_id, cmd) \<Rightarrow> AwaitSpawn username q stream_id cmd rest started))"

text \<open>The head of \<open>_check_loop\<close>: the test of \<open>_running\<close> and the tick up to its first
  suspension.\<close>

definition loop_head :: "tick_env \<Rightarrow> manager \<Rightarrow> loop_pc \<times> manager" where
  "loop_head env m =
     (if \<not> running m then (Finished, m)
      else
        (let m1 = m\<lparr>last_check_time := wall_time env\<rparr> in
         if autotuned_streamers m1 = [] \<or> \<not> twitch m1 then (Sleeping, m1)
         else (AwaitProvider, m1)))"

text \<open>The tick from the answer of the provider to the next suspension.\<close>

definition after_provider :: "tick_env \<Rightarrow> manager \<Rightarrow> loop_pc \<times> manager" where
  "after_provider env m =
     (let live_streamers = live_usernames (provider env) in
      if live_streamers = [] then (Sleeping, m)
      else
        (let newly_live = filter (\<lambda>u. u \<notin> currently_live m) live_streamers;
             m1 = m\<lparr>currently_live := set live_streamers\<rparr>;
             to_start = streams_to_start (loop_clock env) m1 newly_live;
             admitted = limit_streams (loop_clock env) m1 to_start
         in (advance (launch env) admitted [] m1, m1)))"

text \<open>The tick from the end of one \<open>create_subprocess_exec\<close> to the next suspension.\<close>

definition after_spawn ::
  "tick_env \<Rightarrow> string \<Rightarrow> pyval \<Rightarrow> string \<Rightarrow> string list \<Rightarrow> string list \<Rightarrow> string list \<Rightarrow> manager \<Rightarrow> loop_pc \<times> manager" where
  "after_spawn env username q stream_id cmd rest started m =
     (let ((success, sid), h') =
            start_stream_finish (spawn (launch env username) cmd) (loop_time (launch env username))
              username q stream_id (stream_handler m);
          m1 = m\<lparr>stream_handler := h'\<rparr>
      in (advance (launch env) rest (if success then started @ [sid] else started) m1, m1))"

text \<open>The event loop resumes task \<open>i\<close>.\<close>

definition resume :: "tick_env \<Rightarrow> nat \<Rightarrow> world \<Rightarrow> world" where
  "resume env i w =
     (if i \<ge> length (tasks w) then w
      else
        (let t = tasks w ! i in
         if pc t = Finished then w
         else if cancel_requested t then w\<lparr>tasks := (tasks w)[i := t\<lparr>pc := Finished\<rparr>]\<rparr>
         else
           (let (pc', m') =
                  (case pc t of
                     NotStarted \<Rightarrow> loop_head env (mgr w)
                   | Sleeping \<Rightarrow> loop_head env (mgr w)
                   | AwaitProvider \<Rightarrow> after_provider env (mgr w)
                   | AwaitSpawn username q stream_id cmd rest started \<Rightarrow>
                       after_spawn env username q stream_id cmd rest started (mgr w)
                   | Finished \<Rightarrow> (Finished, mgr w))
            in w\<lparr>mgr := m', tasks := (tasks w)[i := t\<lparr>pc := pc'\<rparr>]\<rparr>)))"

text \<open>
  A schedule of the event loop: which task is resumed, and what it meets, step by step.
\<close>

fun run_schedule :: "(tick_env \<times> nat) list \<Rightarrow> world \<Rightarrow> world" where
  "run_schedule [] w = w"
| "run_schedule ((env, i) # rest) w = run_schedule rest (resume env i w)"

fun resume_n :: "nat \<Rightarrow> tick_env \<Rightarrow> nat \<Rightarrow> world \<Rightarrow> world" where
  "resume_n 0 env i w = w"
| "resume_n (Suc n) env i w = resume_n n env i (resume env i w)"

text \<open>
  The state that \<open>start\<close>, \<open>stop\<close> and the steps of the tasks keep: every task but the
  one that a running manager holds in \<open>_check_task\<close> has ended or has been cancelled.
\<close>

definition loop_inv :: "world \<Rightarrow> bool" where
  "loop_inv w =
     list_all (\<lambda>(j, t). (running (mgr w) \<and> check_task (mgr w) = Some j)
                        \<or> pc t = Finished \<or> cancel_requested t)
       (enumerate 0 (tasks w))"

definition all_cancelled :: "world \<Rightarrow> bool" where
  "all_cancelled w = list_all (\<lambda>t. pc t = Finished \<or> cancel_requested t) (tasks w)"

subsection \<open>Sequences of calls on the policy store\<close>

text \<open>
  A call of the store: \<open>add\<close> without settings, or with a dictionary the caller has
  just made for the call (as \<open>main.py\<close> does with the parameters of a command);
  \<open>add\<close> with a dictionary object that exists already, given by its address;
  \<open>update\<close>; \<open>remove\<close>.
\<close>

datatype store_op =
    Add string "pydict option"
  | AddRef string nat
  | Update string pydict
  | Remove string

fun apply_op :: "write_outcome \<times> store_op \<Rightarrow> manager \<times> settings_file \<Rightarrow> manager \<times> settings_file" where
  "apply_op (w, Add u None) (m, f) = snd (add_autotuned_streamer w u None m f)"
| "apply_op (w, Add u (Some d)) (m, f) =
     (let (a, m1) = new_dict d m in snd (add_autotuned_streamer w u (Some a) m1 f))"
| "apply_op (w, AddRef u a) (m, f) = snd (add_autotuned_streamer w u (Some a) m f)"
| "apply_op (w, Update u s) (m, f) = snd (update_streamer_settings w u s m f)"
| "apply_op (w, Remove u) (m, f) = snd (remove_autotuned_streamer w u m f)"

fun run_ops :: "(write_outcome \<times> store_op) list \<Rightarrow> manager \<times> settings_file \<Rightarrow> manager \<times> settings_file" where
  "run_ops [] st = st"
| "run_ops (x # xs) st = run_ops xs (apply_op x st)"

text \<open>
  No policy object is shared: the references of the store are different from each
  other and refer to objects that exist.
\<close>

definition unshared :: "manager \<Rightarrow> bool" where
  "unshared m =
     (distinct (map snd (autotuned_streamers m))
      \<and> list_all (\<lambda>(k, a). a < next_object m) (autotuned_streamers m))"

text \<open>
  The policy store as the specification words it, target by target. Its calls pass
  policies as values: a target is named without regard to case; \<open>add\<close> fills the fields
  the policy passed does not specify with the process-wide defaults; \<open>update\<close> merges
  into the policy of a tracked target and fails for another; \<open>remove\<close> ends the
  tracking. \<open>spec_policy\<close> follows one target through a sequence of calls.
\<close>

datatype spec_call =
    SpecAdd string "pydict option"
  | SpecUpdate string pydict
  | SpecRemove string

definition same_target :: "string \<Rightarrow> string \<Rightarrow> bool" where
  "same_target a b = (lower a = lower b)"

fun call_target :: "spec_call \<Rightarrow> string" where
  "call_target (SpecAdd u opt) = u"
| "call_target (SpecUpdate u s) = u"
| "call_target (SpecRemove u) = u"

fun spec_effect :: "pydict \<Rightarrow> spec_call \<Rightarrow> pydict option \<Rightarrow> pydict option" where
  "spec_effect dflt (SpecAdd u None) cur = Some dflt"
| "spec_effect dflt (SpecAdd u (Some s)) cur = Some (dflt ++ s)"
| "spec_effect dflt (SpecUpdate u s) cur = (case cur of None \<Rightarrow> None | Some old \<Rightarrow> Some (old ++ s))"
| "spec_effect dflt (SpecRemove u) cur = None"

fun spec_policy :: "pydict \<Rightarrow> string \<Rightarrow> spec_call list \<Rightarrow> pydict option \<Rightarrow> pydict option" where
  "spec_policy dflt t [] cur = cur"
| "spec_policy dflt t (x # xs) cur =
     spec_policy dflt t xs (if same_target (call_target x) t then spec_effect dflt x cur else cur)"

text \<open>
  The net effect of a sequence of calls on one target when \<open>add\<close> keeps the policy as
  it is passed: the store of the specification but for that.
\<close>

fun net_effect :: "pydict \<Rightarrow> spec_call \<Rightarrow> pydict option \<Rightarrow> pydict option" where
  "net_effect dflt (SpecAdd u None) cur = Some dflt"
| "net_effect dflt (SpecAdd u (Some s)) cur = Some s"
| "net_effect dflt (SpecUpdate u s) cur = (case cur of None \<Rightarrow> None | Some old \<Rightarrow> Some (old ++ s))"
| "net_effect dflt (SpecRemove u) cur = None"

fun net_policy :: "pydict \<Rightarrow> string \<Rightarrow> spec_call list \<Rightarrow> pydict option \<Rightarrow> pydict option" where
  "net_policy dflt t [] cur = cur"
| "net_policy dflt t (x # xs) cur =
     net_policy dflt t xs (if same_target (call_target x) t then net_effect dflt x cur else cur)"

text \<open>
  The calls of a sequence as the specification sees them, when every \<open>add\<close> of the
  sequence passes no dictionary or one of its own; a sequence that passes a dictionary
  object that exists already has none.
\<close>

fun call_of :: "store_op \<Rightarrow> spec_call option" where
  "call_of (Add u opt) = Some (SpecAdd u opt)"
| "call_of (AddRef u a) = None"
| "call_of (Update u s) = Some (SpecUpdate u s)"
| "call_of (Remove u) = Some (SpecRemove u)"

fun calls_of :: "store_op list \<Rightarrow> spec_call list option" where
  "calls_of [] = Some []"
| "calls_of (x # xs) =
     (case call_of x of
        None \<Rightarrow> None
      | Some c \<Rightarrow> (case calls_of xs of None \<Rightarrow> None | Some cs \<Rightarrow> Some (c # cs)))"

section \<open>Concrete states and environments\<close>

text \<open>
  The states and environments at which the theorems below are evaluated: a handler and
  a manager as \<open>__init__\<close> leaves them on a first run, launches that fail and succeed, a
  registry with one and with two sessions, a stop that ends well and one that fails, a
  manager that tracks three streamers, a manager that saw its one streamer live at the
  last tick, and a check loop taken from \<open>start()\<close> into the middle of a tick.
\<close>

definition fresh_handler :: stream_handler where
  "fresh_handler = \<lparr> streamlink_path = ''streamlink'', active_streams = [] \<rparr>"

definition fresh_manager :: manager where
  "fresh_manager =
     \<lparr> twitch = True,
       stream_handler = fresh_handler,
       notification_callback = True,
       settings = default_settings,
       autotuned_streamers = [],
       objects = (\<lambda>a. Map.empty),
       next_object = 0,
       check_interval = 60,
       max_concurrent_streams = 4,
       default_quality = PStr ''best'',
       running = False,
       check_task = None,
       last_check_time = 0,
       currently_live = {} \<rparr>"

definition failing_launch :: start_env where
  "failing_launch =
     \<lparr> urandom_hex = ''0a1b2c3d'',
       spawn = (\<lambda>cmd. Inl ''No such file or directory''),
       loop_time = 100 \<rparr>"

definition good_launch :: start_env where
  "good_launch = \<lparr> urandom_hex = ''0a1b2c3d'', spawn = (\<lambda>cmd. Inr 4242), loop_time = 100 \<rparr>"

definition one_stream_handler :: stream_handler where
  "one_stream_handler =
     \<lparr> streamlink_path = ''streamlink'',
       active_streams =
         [(''ninja_best_0a1b2c3d'',
           \<lparr>process = 4242, channel = ''ninja'', quality = PStr ''best'', start_time = 100\<rparr>)] \<rparr>"

definition two_stream_handler :: stream_handler where
  "two_stream_handler =
     \<lparr> streamlink_path = ''streamlink'',
       active_streams =
         [(''x_best_00000001'',
           \<lparr>process = 1, channel = ''x'', quality = PStr ''best'', start_time = 10\<rparr>),
          (''y_best_00000002'',
           \<lparr>process = 2, channel = ''y'', quality = PStr ''best'', start_time = 20\<rparr>)] \<rparr>"

definition graceful_stop :: stop_env where
  "graceful_stop = \<lparr> terminate_raises = False, wait_outcome = Exited, kill_raises = False \<rparr>"

definition tracked_manager :: manager where
  "tracked_manager =
     fresh_manager
       \<lparr>autotuned_streamers := [(''a'', 0), (''b'', 1), (''c'', 2)],
        objects := (\<lambda>a. if a < 3 then default_streamer_settings fresh_manager else Map.empty),
        next_object := 3\<rparr>"

definition ninja_seen_manager :: manager where
  "ninja_seen_manager =
     fresh_manager
       \<lparr>autotuned_streamers := [(''ninja'', 0)],
        objects := (\<lambda>a. if a < 1 then default_streamer_settings fresh_manager else Map.empty),
        next_object := 1,
        currently_live := {''ninja''}\<rparr>"

definition good_tick :: tick_env where
  "good_tick =
     \<lparr> wall_time = 1700000000,
       provider = ProviderAnswers [''A'', ''b''],
       loop_clock = 100,
       launch = (\<lambda>u. good_launch) \<rparr>"

definition kill_fails :: stop_env where
  "kill_fails = \<lparr> terminate_raises = False, wait_outcome = TimedOut, kill_raises = True \<rparr>"

definition idle_world :: world where
  "idle_world = \<lparr> mgr = tracked_manager, tasks = [] \<rparr>"

definition in_tick_world :: world where
  "in_tick_world = resume good_tick 0 (resume good_tick 0 (start idle_world))"

section \<open>Lower case\<close>

lemma lower_char_idem: "lower_char (lower_char c) = lower_char c"
  by (simp add: lower_char_def)

lemma lower_idem: "lower (lower s) = lower s"
  by (simp add: lower_def lower_char_idem)

lemma lower_fixed_of_lower: "t = lower u \<Longrightarrow> lower t = t"
  by (simp add: lower_idem)

section \<open>Loading the settings\<close>

lemma init_manager_first_run:
  "init_manager Written Missing True fresh_handler True
     = Inr (fresh_manager, Document default_settings)"
  by (simp add: init_manager_def fresh_manager_def default_settings_def)

lemma load_settings_fallback:
  "f \<in> {Missing, IOFailure, BadJSON} \<Longrightarrow> \<exists>f'. load_settings w f = Inr (default_settings, f')"
  by auto

text \<open>
  C10. A settings file that is missing, that cannot be opened or that holds text that is
  not JSON gives the default document (\<open>load_settings_fallback\<close>). A settings file whose
  bytes are not text in the encoding of the locale is corrupt as well, and for it
  \<open>_load_settings\<close> raises \<open>UnicodeDecodeError\<close>, and so does \<open>__init__\<close>: the manager
  is not made.
\<close>

theorem load_settings_undecodable_raises:
  "load_settings w BadEncoding = Inl UnicodeDecodeError
   \<and> init_manager w BadEncoding tw h cb = Inl UnicodeDecodeError"
  by (simp add: init_manager_def)

section \<open>The policy store\<close>

lemma deref_update_same: "deref objs (AList.update k a d) k = Some (objs a)"
  by (simp add: deref_def update_conv')

lemma deref_update_other: "t \<noteq> k \<Longrightarrow> deref objs (AList.update k a d) t = deref objs d t"
  by (simp add: deref_def update_conv')

lemma deref_None_not_key: "deref objs d k = None \<longleftrightarrow> k \<notin> fst ` set d"
  by (simp add: deref_def map_of_eq_None_iff)

text \<open>
  C4, as the claim words it, fails: \<open>add\<close> with a dictionary that gives the quality
  only stores that dictionary, and what \<open>get_autotuned_streamers\<close> then lists for the
  target has no \<open>auto_start\<close> and no \<open>notifications\<close>.
\<close>

theorem add_partial_settings_not_filled:
  "(case add_autotuned_streamer Written ''Ninja'' (Some 0)
           (snd (new_dict [''quality'' \<mapsto> PStr ''720p''] fresh_manager)) Missing of
      (ok, m', f') \<Rightarrow>
        ok \<and> (case deref (objects m') (get_autotuned_streamers m') ''ninja'' of
                None \<Rightarrow> False
              | Some s \<Rightarrow> s ''quality'' = Some (PStr ''720p'')
                          \<and> s ''auto_start'' = None \<and> s ''notifications'' = None))"
  by (simp add: add_autotuned_streamer_def new_dict_def save_settings_def Let_def lower_def
      lower_char_def fresh_manager_def get_autotuned_streamers_def deref_def)

text \<open>
  C4, amended. \<open>add\<close> puts the identifier in lower case. Given no settings, it makes a
  new dictionary holding the default quality of the manager under \<open>quality\<close> and true
  under \<open>notifications\<close> and \<open>auto_start\<close>, and stores it under the identifier; given
  a dictionary, it stores that very dictionary, as it is, and fills no field. It then
  writes the settings file: the policies as they stand, the check interval, the limit
  of concurrent streams, the default quality, and the two settings it carries over from
  the document loaded; it returns true when the file was written and false when the
  write raised \<open>IOError\<close>. A field that the stored dictionary lacks takes its default
  where it is read: auto-start and notifications count as on, and the stream is
  started with the default quality.
\<close>

theorem add_stores_settings_as_given:
  "(case add_autotuned_streamer w u opt m f of
      (ok, m', f') \<Rightarrow>
        (case opt of
           None \<Rightarrow>
             m' = m\<lparr>objects := (objects m)
                        (next_object m :=
                           [''quality'' \<mapsto> default_quality m,
                            ''notifications'' \<mapsto> PBool True,
                            ''auto_start'' \<mapsto> PBool True]),
                    next_object := Suc (next_object m),
                    autotuned_streamers :=
                      AList.update (lower u) (next_object m) (autotuned_streamers m)\<rparr>
             \<and> deref (objects m') (get_autotuned_streamers m') (lower u)
                 = Some [''quality'' \<mapsto> default_quality m,
                         ''notifications'' \<mapsto> PBool True,
                         ''auto_start'' \<mapsto> PBool True]
         | Some a \<Rightarrow>
             m' = m\<lparr>autotuned_streamers := AList.update (lower u) a (autotuned_streamers m)\<rparr>
             \<and> deref (objects m') (get_autotuned_streamers m') (lower u) = Some (objects m a))
        \<and> ok = (w = Written)
        \<and> (w = Written \<longrightarrow>
             f' = Document
                   \<lparr> doc_autotuned_streamers =
                       Some (map (\<lambda>(k, a). (k, objects m' a)) (autotuned_streamers m')),
                     doc_check_interval = Some (check_interval m),
                     doc_max_concurrent_streams = Some (max_concurrent_streams m),
                     doc_default_quality = Some (default_quality m),
                     doc_auto_start_on_boot =
                       Some (case doc_auto_start_on_boot (settings m) of
                               None \<Rightarrow> PBool True | Some v \<Rightarrow> v),
                     doc_notification_settings =
                       Some (case doc_notification_settings (settings m) of
                               None \<Rightarrow> [''enabled'' \<mapsto> PBool True, ''sound'' \<mapsto> PBool True,
                                        ''popup'' \<mapsto> PBool True]
                             | Some v \<Rightarrow> v) \<rparr>)
        \<and> (w = OpenFails \<longrightarrow> f' = f)
        \<and> (w = DumpFails \<longrightarrow> f' = BadJSON)
        \<and> (\<forall>s. deref (objects m') (autotuned_streamers m') (lower u) = Some s \<longrightarrow>
               (s ''auto_start'' = None \<longrightarrow> auto_start_enabled m' u)
               \<and> (s ''notifications'' = None \<longrightarrow>
                     notifications_enabled m' u = notification_callback m)
               \<and> (s ''quality'' = None \<longrightarrow>
                     start_loop env [lower u] [] m' =
                       (case start_stream (env (lower u)) (lower u) (default_quality m) None
                               (stream_handler m) of
                          ((success, stream_id), h') \<Rightarrow>
                            (Inr (if success then [stream_id] else []),
                             m'\<lparr>stream_handler := h'\<rparr>)))))"
proof (cases opt)
  case None
  show ?thesis
    by (cases w)
       (auto simp add: None add_autotuned_streamer_def new_dict_def save_settings_def Let_def
          current_doc_def default_streamer_settings_def default_notification_settings_def
          get_autotuned_streamers_def deref_def update_conv' auto_start_enabled_def
          notifications_enabled_def dict_get_def
          split: prod.splits cong: option.case_cong)
next
  case (Some a)
  show ?thesis
    by (cases w)
       (auto simp add: Some add_autotuned_streamer_def save_settings_def Let_def
          current_doc_def default_notification_settings_def
          get_autotuned_streamers_def deref_def update_conv' auto_start_enabled_def
          notifications_enabled_def dict_get_def
          split: prod.splits cong: option.case_cong)
qed

theorem add_stores_settings_as_given_witness:
  "(case add_autotuned_streamer Written ''Ninja'' None fresh_manager Missing of
      (ok, m', f') \<Rightarrow>
        ok
        \<and> autotuned_streamers m' = [(''ninja'', 0)]
        \<and> (case deref (objects m') (get_autotuned_streamers m') ''ninja'' of
              None \<Rightarrow> False
            | Some s \<Rightarrow> s ''quality'' = Some (PStr ''best'')
                        \<and> s ''notifications'' = Some (PBool True)
                        \<and> s ''auto_start'' = Some (PBool True)
                        \<and> s ''player'' = None)
        \<and> (case f' of
              Document d \<Rightarrow>
                doc_check_interval d = Some 60
                \<and> doc_max_concurrent_streams d = Some 4
                \<and> doc_default_quality d = Some (PStr ''best'')
                \<and> doc_auto_start_on_boot d = Some (PBool True)
                \<and> (case doc_autotuned_streamers d of
                      Some [(k, p)] \<Rightarrow> k = ''ninja'' \<and> p ''quality'' = Some (PStr ''best'')
                                       \<and> p ''auto_start'' = Some (PBool True)
                    | _ \<Rightarrow> False)
            | _ \<Rightarrow> False))"
proof -
  have l: "lower ''Ninja'' = ''ninja''"
    by (simp add: lower_def lower_char_def)
  obtain ok m' f' where
    r: "add_autotuned_streamer Written ''Ninja'' None fresh_manager Missing = (ok, m', f')"
    by (rule prod_cases3)
  note t = add_stores_settings_as_given
      [where w = Written and u = "''Ninja''" and opt = None and m = fresh_manager and f = Missing
         and env = "\<lambda>u. good_launch", unfolded r l]
  from t have m: "autotuned_streamers m' = [(''ninja'', 0)]"
    by (simp add: fresh_manager_def)
  from t have o: "objects m' 0 = [''quality'' \<mapsto> PStr ''best'', ''notifications'' \<mapsto> PBool True,
                                  ''auto_start'' \<mapsto> PBool True]"
    by (simp add: fresh_manager_def)
  from t have d: "deref (objects m') (get_autotuned_streamers m') ''ninja''
                    = Some [''quality'' \<mapsto> PStr ''best'', ''notifications'' \<mapsto> PBool True,
                            ''auto_start'' \<mapsto> PBool True]"
    by (simp add: fresh_manager_def deref_def get_autotuned_streamers_def)
  from t have k: "ok" by simp
  from t have f': "f' = Document
                   \<lparr> doc_autotuned_streamers =
                       Some (map (\<lambda>(k, a). (k, objects m' a)) (autotuned_streamers m')),
                     doc_check_interval = Some 60,
                     doc_max_concurrent_streams = Some 4,
                     doc_default_quality = Some (PStr ''best''),
                     doc_auto_start_on_boot = Some (PBool True),
                     doc_notification_settings =
                       Some [''enabled'' \<mapsto> PBool True, ''sound'' \<mapsto> PBool True,
                             ''popup'' \<mapsto> PBool True] \<rparr>"
    by (simp add: fresh_manager_def default_settings_def default_notification_settings_def)
  show ?thesis
    unfolding r by (simp add: m o d k f')
qed

text \<open>
  C8. For a tracked target (its identifier in lower case is a key of the store),
  \<open>update\<close> merges the new settings into the dictionary of the target: a key of the
  new settings has the new value and any other key keeps its old value, which is what
  \<open>get_autotuned_streamers\<close> then lists for the target. The keys of the store and
  every other field of the manager stay; the merge is made in the object itself, so
  a target that refers to the same object lists the merged dictionary too, and a target
  that refers to another object lists what it listed. Then the settings file is
  written, with the policies as they now stand and the manager's settings. For a target
  that is not tracked \<open>update\<close> returns false, and the manager and the file are as
  before.
\<close>

theorem update_merges_or_fails:
  "(case map_of (autotuned_streamers m) (lower u) of
      Some a \<Rightarrow>
        (case update_streamer_settings w u s m f of
           (ok, m', f') \<Rightarrow>
             m' = m\<lparr>objects := (objects m)(a := objects m a ++ s)\<rparr>
             \<and> (\<exists>new. deref (objects m') (get_autotuned_streamers m') (lower u) = Some new
                   \<and> (\<forall>k v. s k = Some v \<longrightarrow> new k = Some v)
                   \<and> (\<forall>k. s k = None \<longrightarrow> new k = objects m a k))
             \<and> (\<forall>t b. map_of (autotuned_streamers m) t = Some b \<longrightarrow>
                   deref (objects m') (get_autotuned_streamers m') t
                     = Some (if b = a then objects m a ++ s else objects m b))
             \<and> (\<forall>t. map_of (autotuned_streamers m) t = None \<longrightarrow>
                   deref (objects m') (get_autotuned_streamers m') t = None)
             \<and> ok = (w = Written)
             \<and> (w = Written \<longrightarrow>
                  f' = Document
                        \<lparr> doc_autotuned_streamers =
                            Some (map (\<lambda>(k, b). (k, if b = a then objects m a ++ s else objects m b))
                                    (autotuned_streamers m)),
                          doc_check_interval = Some (check_interval m),
                          doc_max_concurrent_streams = Some (max_concurrent_streams m),
                          doc_default_quality = Some (default_quality m),
                          doc_auto_start_on_boot =
                            Some (case doc_auto_start_on_boot (settings m) of
                                    None \<Rightarrow> PBool True | Some v \<Rightarrow> v),
                          doc_notification_settings =
                            Some (case doc_notification_settings (settings m) of
                                    None \<Rightarrow> [''enabled'' \<mapsto> PBool True, ''sound'' \<mapsto> PBool True,
                                             ''popup'' \<mapsto> PBool True]
                                  | Some v \<Rightarrow> v) \<rparr>)
             \<and> (w = OpenFails \<longrightarrow> f' = f)
             \<and> (w = DumpFails \<longrightarrow> f' = BadJSON))
    | None \<Rightarrow> update_streamer_settings w u s m f = (False, m, f))"
proof (cases "map_of (autotuned_streamers m) (lower u)")
  case None
  then show ?thesis by (simp add: update_streamer_settings_def)
next
  case (Some a)
  have docs: "map (\<lambda>(k, b). (k, ((objects m)(a := objects m a ++ s)) b)) (autotuned_streamers m)
              = map (\<lambda>(k, b). (k, if b = a then objects m a ++ s else objects m b))
                  (autotuned_streamers m)"
    by (rule map_cong) auto
  show ?thesis
    by (cases w)
       (auto simp add: Some update_streamer_settings_def save_settings_def Let_def
          current_doc_def default_notification_settings_def docs
          get_autotuned_streamers_def deref_def map_add_def
          split: prod.splits option.splits cong: option.case_cong)
qed

theorem update_merges_or_fails_witness:
  "(case update_streamer_settings Written ''A'' [''quality'' \<mapsto> PStr ''720p''] tracked_manager Missing of
      (ok, m', f') \<Rightarrow>
        ok
        \<and> (case deref (objects m') (get_autotuned_streamers m') ''a'' of
              None \<Rightarrow> False
            | Some new \<Rightarrow> new ''quality'' = Some (PStr ''720p'')
                          \<and> new ''auto_start'' = Some (PBool True))
        \<and> (case deref (objects m') (get_autotuned_streamers m') ''b'' of
              None \<Rightarrow> False
            | Some other \<Rightarrow> other ''quality'' = Some (PStr ''best''))
        \<and> (case f' of
              Document d \<Rightarrow>
                doc_check_interval d = Some 60
                \<and> doc_max_concurrent_streams d = Some 4
                \<and> (case doc_autotuned_streamers d of
                      Some [(k1, p1), (k2, p2), (k3, p3)] \<Rightarrow>
                        k1 = ''a'' \<and> p1 ''quality'' = Some (PStr ''720p'')
                        \<and> k2 = ''b'' \<and> p2 ''quality'' = Some (PStr ''best'')
                    | _ \<Rightarrow> False)
            | _ \<Rightarrow> False))
   \<and> update_streamer_settings Written ''Z'' [''quality'' \<mapsto> PStr ''720p''] tracked_manager Missing
       = (False, tracked_manager, Missing)"
proof -
  have l: "lower ''A'' = ''a''" "lower ''Z'' = ''z''"
    by (simp_all add: lower_def lower_char_def)
  have a: "map_of (autotuned_streamers tracked_manager) ''a'' = Some 0"
    and b: "map_of (autotuned_streamers tracked_manager) ''b'' = Some 1"
    and z: "map_of (autotuned_streamers tracked_manager) ''z'' = None"
    by (simp_all add: tracked_manager_def)
  have o: "objects tracked_manager 0 = default_streamer_settings fresh_manager"
    "objects tracked_manager 1 = default_streamer_settings fresh_manager"
    by (simp_all add: tracked_manager_def)
  have dq: "default_streamer_settings fresh_manager ''quality'' = Some (PStr ''best'')"
    and da: "default_streamer_settings fresh_manager ''auto_start'' = Some (PBool True)"
    by (simp_all add: default_streamer_settings_def fresh_manager_def)
  obtain ok m' f' where
    r: "update_streamer_settings Written ''A'' [''quality'' \<mapsto> PStr ''720p''] tracked_manager Missing
          = (ok, m', f')"
    by (rule prod_cases3)
  note t = update_merges_or_fails
        [where m = tracked_manager and u = "''A''" and w = Written
           and s = "[''quality'' \<mapsto> PStr ''720p'']" and f = Missing, unfolded l a r]
  from t have k: "ok" by simp
  from t have da': "deref (objects m') (get_autotuned_streamers m') ''a''
                      = Some (default_streamer_settings fresh_manager ++ [''quality'' \<mapsto> PStr ''720p''])"
    using a o by (simp add: deref_def get_autotuned_streamers_def)
  from t have db': "deref (objects m') (get_autotuned_streamers m') ''b''
                      = Some (default_streamer_settings fresh_manager)"
    using b o by (simp add: deref_def get_autotuned_streamers_def)
  from t have f': "f' = Document
        \<lparr> doc_autotuned_streamers =
            Some [(''a'', default_streamer_settings fresh_manager ++ [''quality'' \<mapsto> PStr ''720p'']),
                  (''b'', default_streamer_settings fresh_manager),
                  (''c'', default_streamer_settings fresh_manager)],
          doc_check_interval = Some 60,
          doc_max_concurrent_streams = Some 4,
          doc_default_quality = Some (PStr ''best''),
          doc_auto_start_on_boot = Some (PBool True),
          doc_notification_settings =
            Some [''enabled'' \<mapsto> PBool True, ''sound'' \<mapsto> PBool True,
                  ''popup'' \<mapsto> PBool True] \<rparr>"
    by (simp add: tracked_manager_def fresh_manager_def default_settings_def
        default_notification_settings_def)
  have z': "update_streamer_settings Written ''Z'' [''quality'' \<mapsto> PStr ''720p''] tracked_manager Missing
       = (False, tracked_manager, Missing)"
    using update_merges_or_fails
        [where m = tracked_manager and u = "''Z''" and w = Written
           and s = "[''quality'' \<mapsto> PStr ''720p'']" and f = Missing]
    by (simp add: l z)
  show ?thesis
    unfolding r by (simp add: k da' db' f' z' dq da)
qed

subsection \<open>Sequences of calls\<close>

lemma store_op_cases [case_names add_none add_new add_ref update remove]:
  obtains u where "x = Add u None"
    | u d where "x = Add u (Some d)"
    | u a where "x = AddRef u a"
    | u s where "x = Update u s"
    | u where "x = Remove u"
proof (cases x)
  case (Add u opt)
  then show ?thesis by (cases opt) (auto intro: that)
qed (auto intro: that)

lemma apply_op_defaults:
  "default_streamer_settings (fst (apply_op x st)) = default_streamer_settings (fst st)"
proof -
  obtain w y where x: "x = (w, y)" by (cases x)
  obtain m f where st: "st = (m, f)" by (cases st)
  show ?thesis
    unfolding x st
    by (cases y rule: store_op_cases)
       (auto simp: add_autotuned_streamer_def update_streamer_settings_def
          remove_autotuned_streamer_def default_streamer_settings_def new_dict_def Let_def
          split: prod.splits option.splits)
qed

lemma map_of_None_not_key: "map_of al k = None \<longleftrightarrow> k \<notin> fst ` set al"
  by (simp add: map_of_eq_None_iff)

lemma add_keys:
  "fst ` set (autotuned_streamers (fst (snd (add_autotuned_streamer w u opt m f))))
     = {lower u} \<union> fst ` set (autotuned_streamers m)"
  by (cases opt)
     (simp_all add: add_autotuned_streamer_def new_dict_def Let_def dom_update
        split: prod.splits)

lemma add_keys_distinct:
  "distinct (map fst (autotuned_streamers m)) \<Longrightarrow>
   distinct (map fst (autotuned_streamers (fst (snd (add_autotuned_streamer w u opt m f)))))"
  by (cases opt)
     (simp_all add: add_autotuned_streamer_def new_dict_def Let_def distinct_update
        split: prod.splits)

lemma new_dict_store: "autotuned_streamers (snd (new_dict d m)) = autotuned_streamers m"
  by (simp add: new_dict_def)

lemma apply_op_keys_lower:
  assumes "\<forall>k \<in> fst ` set (autotuned_streamers m). lower k = k"
  shows "\<forall>k \<in> fst ` set (autotuned_streamers (fst (apply_op (w, x) (m, f)))). lower k = k"
proof (cases x rule: store_op_cases)
  case (add_none u)
  then show ?thesis using assms add_keys [of w u None m f] by (auto simp: lower_idem)
next
  case (add_new u d)
  then show ?thesis
    using assms add_keys [of w u "Some (fst (new_dict d m))" "snd (new_dict d m)" f]
    by (auto simp: lower_idem new_dict_store case_prod_beta)
next
  case (add_ref u a)
  then show ?thesis using assms add_keys [of w u "Some a" m f] by (auto simp: lower_idem)
next
  case (update u s)
  then show ?thesis
    using assms
    by (auto simp: update_streamer_settings_def save_settings_def Let_def
        split: option.splits prod.splits)
next
  case (remove u)
  then show ?thesis
    using assms
    by (auto simp: remove_autotuned_streamer_def save_settings_def Let_def AList.delete_eq
        split: prod.splits)
qed

lemma apply_op_keys_distinct:
  assumes "distinct (map fst (autotuned_streamers m))"
  shows "distinct (map fst (autotuned_streamers (fst (apply_op (w, x) (m, f)))))"
proof (cases x rule: store_op_cases)
  case (add_none u)
  then show ?thesis using add_keys_distinct [OF assms, of w u None f] by simp
next
  case (add_new u d)
  have "distinct (map fst (autotuned_streamers (snd (new_dict d m))))"
    using assms by (simp add: new_dict_store)
  from add_keys_distinct [OF this, of w u "Some (fst (new_dict d m))" f] add_new show ?thesis
    by (simp add: case_prod_beta)
next
  case (add_ref u a)
  then show ?thesis using add_keys_distinct [OF assms, of w u "Some a" f] by simp
next
  case (update u s)
  then show ?thesis
    using assms
    by (auto simp: update_streamer_settings_def save_settings_def Let_def
        split: option.splits prod.splits)
next
  case (remove u)
  then show ?thesis
    using assms
    by (auto simp: remove_autotuned_streamer_def save_settings_def Let_def distinct_delete
        split: prod.splits)
qed

lemma run_ops_keys:
  assumes "\<forall>k \<in> fst ` set (autotuned_streamers m). lower k = k"
  shows "\<forall>k \<in> fst ` set (autotuned_streamers (fst (run_ops ops (m, f)))). lower k = k"
  using assms
proof (induction ops arbitrary: m f)
  case Nil
  then show ?case by simp
next
  case (Cons x xs)
  obtain w y where x: "x = (w, y)" by (cases x)
  obtain m' f' where st: "apply_op (w, y) (m, f) = (m', f')" by (cases "apply_op (w, y) (m, f)")
  have "\<forall>k \<in> fst ` set (autotuned_streamers m'). lower k = k"
    using apply_op_keys_lower [OF Cons.prems, of w y f] st by simp
  from Cons.IH [OF this, of f'] show ?case by (simp add: x st)
qed

lemma run_ops_distinct:
  "distinct (map fst (autotuned_streamers m)) \<Longrightarrow>
   distinct (map fst (autotuned_streamers (fst (run_ops ops (m, f)))))"
proof (induction ops arbitrary: m f)
  case Nil
  then show ?case by simp
next
  case (Cons x xs)
  obtain w y where x: "x = (w, y)" by (cases x)
  obtain m' f' where st: "apply_op (w, y) (m, f) = (m', f')" by (cases "apply_op (w, y) (m, f)")
  have "distinct (map fst (autotuned_streamers m'))"
    using apply_op_keys_distinct [OF Cons.prems, of w y f] st by simp
  from Cons.IH [OF this, of f'] show ?case by (simp add: x st)
qed

text \<open>Stores whose objects are not shared.\<close>

lemma unshared_iff:
  "unshared m \<longleftrightarrow>
     distinct (map snd (autotuned_streamers m))
     \<and> (\<forall>a \<in> snd ` set (autotuned_streamers m). a < next_object m)"
  by (auto simp: unshared_def list_all_iff)

lemma unshared_same_object:
  assumes "unshared m" "map_of (autotuned_streamers m) k1 = Some a"
    "map_of (autotuned_streamers m) k2 = Some a"
  shows "k1 = k2"
proof -
  have "(k1, a) \<in> set (autotuned_streamers m)" "(k2, a) \<in> set (autotuned_streamers m)"
    using assms(2,3) by (auto dest: map_of_SomeD)
  moreover have "inj_on snd (set (autotuned_streamers m))"
    using assms(1) by (simp add: unshared_iff distinct_map)
  ultimately have "(k1, a) = (k2, a)"
    by (rule_tac inj_onD [where f = snd]) simp_all
  then show ?thesis by simp
qed

lemma unshared_allocated:
  "unshared m \<Longrightarrow> map_of (autotuned_streamers m) k = Some a \<Longrightarrow> a < next_object m"
  by (auto simp: unshared_iff dest!: map_of_SomeD intro: rev_image_eqI)

lemma snd_set_update: "snd ` set (AList.update k v al) \<subseteq> insert v (snd ` set al)"
  by (induction al) auto

lemma distinct_snd_update:
  "distinct (map snd al) \<Longrightarrow> v \<notin> snd ` set al \<Longrightarrow> distinct (map snd (AList.update k v al))"
proof (induction al)
  case Nil
  then show ?case by simp
next
  case (Cons p al)
  show ?case
  proof (cases "fst p = k")
    case True
    with Cons.prems show ?thesis by auto
  next
    case False
    have "snd p \<notin> snd ` set (AList.update k v al)"
      using snd_set_update [of k v al] Cons.prems by auto
    with False Cons show ?thesis by auto
  qed
qed

lemma snd_set_delete: "snd ` set (AList.delete k al) \<subseteq> snd ` set al"
  by (auto simp: AList.delete_eq)

lemma distinct_snd_delete: "distinct (map snd al) \<Longrightarrow> distinct (map snd (AList.delete k al))"
  by (simp add: AList.delete_eq distinct_map_filter)

text \<open>\<open>add\<close> with a dictionary made for the call, or with none.\<close>

lemma add_new_unshared:
  assumes "unshared m"
  shows "unshared (fst (snd (add_autotuned_streamer w u (Some (next_object m))
                               (snd (new_dict d m)) f)))"
proof -
  have fresh: "next_object m \<notin> snd ` set (autotuned_streamers m)"
    using assms by (auto simp: unshared_iff)
  have "distinct (map snd (AList.update (lower u) (next_object m) (autotuned_streamers m)))"
    using assms fresh by (simp add: unshared_iff distinct_snd_update)
  moreover have "\<forall>a \<in> snd ` set (AList.update (lower u) (next_object m) (autotuned_streamers m)).
                   a < Suc (next_object m)"
  proof
    fix a assume "a \<in> snd ` set (AList.update (lower u) (next_object m) (autotuned_streamers m))"
    then have "a = next_object m \<or> a \<in> snd ` set (autotuned_streamers m)"
      using snd_set_update [of "lower u" "next_object m" "autotuned_streamers m"] by auto
    then show "a < Suc (next_object m)"
      using assms by (auto simp: unshared_iff less_Suc_eq)
  qed
  ultimately show ?thesis
    by (simp add: unshared_iff add_autotuned_streamer_def new_dict_def Let_def
        split: prod.splits)
qed

lemma add_new_policy:
  assumes "unshared m"
  shows "deref (objects (fst (snd (add_autotuned_streamer w u (Some (next_object m))
                                      (snd (new_dict d m)) f))))
               (autotuned_streamers (fst (snd (add_autotuned_streamer w u (Some (next_object m))
                                      (snd (new_dict d m)) f)))) t
         = (if t = lower u then Some d else deref (objects m) (autotuned_streamers m) t)"
proof (cases "t = lower u")
  case True
  then show ?thesis
    by (simp add: add_autotuned_streamer_def new_dict_def Let_def deref_def update_conv'
        split: prod.splits)
next
  case False
  have "map_option ((objects m)(next_object m := d)) (map_of (autotuned_streamers m) t)
          = map_option (objects m) (map_of (autotuned_streamers m) t)"
  proof (cases "map_of (autotuned_streamers m) t")
    case None
    then show ?thesis by simp
  next
    case (Some b)
    with unshared_allocated [OF assms Some] show ?thesis by simp
  qed
  with False show ?thesis
    by (simp add: add_autotuned_streamer_def new_dict_def Let_def deref_def update_conv'
        split: prod.splits)
qed

lemma add_none_as_new:
  "snd (add_autotuned_streamer w u None m f)
     = snd (add_autotuned_streamer w u (Some (next_object m))
              (snd (new_dict (default_streamer_settings m) m)) f)"
  by (simp add: add_autotuned_streamer_def new_dict_def Let_def save_settings_def
      current_doc_def split: prod.splits)

lemma apply_op_unshared:
  assumes "unshared m" "call_of x = Some c"
  shows "unshared (fst (apply_op (w, x) (m, f)))"
proof (cases x rule: store_op_cases)
  case (add_none u)
  then show ?thesis
    using add_new_unshared [OF assms(1), of w u "default_streamer_settings m" f]
    by (simp add: add_none_as_new)
next
  case (add_new u d)
  then show ?thesis
    using add_new_unshared [OF assms(1), of w u d f] by (simp add: new_dict_def)
next
  case (add_ref u a)
  then show ?thesis using assms(2) by simp
next
  case (update u s)
  then show ?thesis
    using assms(1)
    by (auto simp: unshared_iff update_streamer_settings_def save_settings_def Let_def
        split: option.splits prod.splits)
next
  case (remove u)
  have "unshared (m\<lparr>autotuned_streamers := AList.delete (lower u) (autotuned_streamers m)\<rparr>)"
    unfolding unshared_iff
  proof (intro conjI ballI)
    show "distinct (map snd (autotuned_streamers
            (m\<lparr>autotuned_streamers := AList.delete (lower u) (autotuned_streamers m)\<rparr>)))"
      using assms(1) by (simp add: unshared_iff distinct_snd_delete)
  next
    fix a
    assume "a \<in> snd ` set (autotuned_streamers
              (m\<lparr>autotuned_streamers := AList.delete (lower u) (autotuned_streamers m)\<rparr>))"
    then have "a \<in> snd ` set (autotuned_streamers m)"
      using snd_set_delete [of "lower u" "autotuned_streamers m"] by auto
    then show "a < next_object
                 (m\<lparr>autotuned_streamers := AList.delete (lower u) (autotuned_streamers m)\<rparr>)"
      using assms(1) by (auto simp: unshared_iff)
  qed
  with remove assms(1) show ?thesis
    by (simp add: remove_autotuned_streamer_def save_settings_def Let_def split: prod.splits)
qed

lemma apply_op_policy:
  assumes "unshared m" "call_of x = Some c"
  shows "deref (objects (fst (apply_op (w, x) (m, f))))
               (autotuned_streamers (fst (apply_op (w, x) (m, f)))) t =
           (if t = lower (call_target c)
            then net_effect (default_streamer_settings m) c
                   (deref (objects m) (autotuned_streamers m) t)
            else deref (objects m) (autotuned_streamers m) t)"
proof (cases x rule: store_op_cases)
  case (add_none u)
  then have c: "c = SpecAdd u None" using assms(2) by auto
  show ?thesis
    using add_none add_new_policy [OF assms(1), of w u "default_streamer_settings m" f t]
    by (simp add: add_none_as_new c)
next
  case (add_new u d)
  then have c: "c = SpecAdd u (Some d)" using assms(2) by auto
  show ?thesis
    using add_new add_new_policy [OF assms(1), of w u d f t]
    by (simp add: c new_dict_def)
next
  case (add_ref u a)
  then show ?thesis using assms(2) by simp
next
  case (update u s)
  then have c: "c = SpecUpdate u s" using assms(2) by auto
  show ?thesis
  proof (cases "map_of (autotuned_streamers m) (lower u)")
    case None
    then show ?thesis
      using update by (simp add: c update_streamer_settings_def deref_def)
  next
    case (Some a)
    have other: "map_option ((objects m)(a := objects m a ++ s)) (map_of (autotuned_streamers m) t)
                   = map_option (objects m) (map_of (autotuned_streamers m) t)"
      if "t \<noteq> lower u"
    proof (cases "map_of (autotuned_streamers m) t")
      case None
      then show ?thesis by simp
    next
      case (Some b)
      have "b \<noteq> a"
        using unshared_same_object [OF assms(1) Some] \<open>map_of (autotuned_streamers m) (lower u) = Some a\<close> that
        by auto
      with Some show ?thesis by simp
    qed
    show ?thesis
      using update Some other
      by (simp add: c update_streamer_settings_def save_settings_def Let_def deref_def
          split: prod.splits)
  qed
next
  case (remove u)
  then have c: "c = SpecRemove u" using assms(2) by auto
  show ?thesis
  proof (cases "lower u \<in> fst ` set (autotuned_streamers m)")
    case True
    with remove show ?thesis
      by (simp add: c remove_autotuned_streamer_def save_settings_def Let_def deref_def
          delete_conv' split: prod.splits)
  next
    case False
    then have "map_of (autotuned_streamers m) (lower u) = None"
      by (simp add: map_of_None_not_key)
    with False remove show ?thesis
      by (simp add: c remove_autotuned_streamer_def deref_def)
  qed
qed

lemma run_ops_policy:
  assumes "unshared m" "calls_of (map snd ops) = Some cs"
  shows "deref (objects (fst (run_ops ops (m, f)))) (autotuned_streamers (fst (run_ops ops (m, f)))) t =
           (if lower t = t
            then net_policy (default_streamer_settings m) t cs
                   (deref (objects m) (autotuned_streamers m) t)
            else deref (objects m) (autotuned_streamers m) t)"
  using assms
proof (induction ops arbitrary: m f cs)
  case Nil
  then show ?case by simp
next
  case (Cons x xs)
  obtain w y where x: "x = (w, y)" by (cases x)
  from Cons.prems(2) obtain c cs' where
    c: "call_of y = Some c" and cs': "calls_of (map snd xs) = Some cs'" and cs: "cs = c # cs'"
    by (auto simp: x split: option.splits)
  obtain m' f' where st: "apply_op (w, y) (m, f) = (m', f')" by (cases "apply_op (w, y) (m, f)")
  have u': "unshared m'"
    using apply_op_unshared [OF Cons.prems(1) c, of w f] st by simp
  have d: "default_streamer_settings m' = default_streamer_settings m"
    using apply_op_defaults [of "(w, y)" "(m, f)"] st by simp
  have s: "deref (objects m') (autotuned_streamers m') t =
     (if t = lower (call_target c)
      then net_effect (default_streamer_settings m) c (deref (objects m) (autotuned_streamers m) t)
      else deref (objects m) (autotuned_streamers m) t)"
    using apply_op_policy [OF Cons.prems(1) c, of w f t] st by simp
  show ?case
  proof (cases "lower t = t")
    case True
    then have "same_target (call_target c) t \<longleftrightarrow> t = lower (call_target c)"
      by (auto simp: same_target_def)
    with True show ?thesis
      using Cons.IH [OF u' cs', of f'] by (simp add: x st d s cs)
  next
    case False
    then have "t \<noteq> lower (call_target c)"
      using lower_fixed_of_lower by blast
    with False show ?thesis
      using Cons.IH [OF u' cs', of f'] by (simp add: x st s)
  qed
qed

text \<open>
  C9, as the claim words it, fails, in two ways. After \<open>add\<close> with a dictionary that
  gives the quality only, the policy listed for the target has no \<open>auto_start\<close>, where
  the store of the specification has filled it with the default. And after \<open>add\<close> of
  two targets with one and the same dictionary object, an \<open>update\<close> of the first shows
  in what is listed for the second, whose policy no call of the sequence has changed
  in the store of the specification.
\<close>

theorem store_listing_differs_from_spec:
  "(case deref (objects (fst (run_ops [(Written, Add ''A'' (Some [''quality'' \<mapsto> PStr ''720p'']))]
                                 (fresh_manager, Missing))))
              (get_autotuned_streamers
                 (fst (run_ops [(Written, Add ''A'' (Some [''quality'' \<mapsto> PStr ''720p'']))]
                         (fresh_manager, Missing)))) ''a'' of
      None \<Rightarrow> False
    | Some s \<Rightarrow> s ''auto_start'' = None)
   \<and> (case spec_policy [''quality'' \<mapsto> PStr ''best'', ''notifications'' \<mapsto> PBool True,
                          ''auto_start'' \<mapsto> PBool True] ''a''
              [SpecAdd ''A'' (Some [''quality'' \<mapsto> PStr ''720p''])] None of
        None \<Rightarrow> False
      | Some s \<Rightarrow> s ''auto_start'' = Some (PBool True))
   \<and> (case deref (objects (fst (run_ops [(Written, Add ''a'' (Some [''quality'' \<mapsto> PStr ''best''])),
                                         (Written, AddRef ''b'' 0),
                                         (Written, Update ''a'' [''quality'' \<mapsto> PStr ''720p''])]
                                   (fresh_manager, Missing))))
              (get_autotuned_streamers
                 (fst (run_ops [(Written, Add ''a'' (Some [''quality'' \<mapsto> PStr ''best''])),
                                (Written, AddRef ''b'' 0),
                                (Written, Update ''a'' [''quality'' \<mapsto> PStr ''720p''])]
                         (fresh_manager, Missing)))) ''b'' of
        None \<Rightarrow> False
      | Some s \<Rightarrow> s ''quality'' = Some (PStr ''720p''))
   \<and> (case spec_policy [''quality'' \<mapsto> PStr ''best'', ''notifications'' \<mapsto> PBool True,
                          ''auto_start'' \<mapsto> PBool True] ''b''
              [SpecAdd ''a'' (Some [''quality'' \<mapsto> PStr ''best'']),
               SpecAdd ''b'' (Some [''quality'' \<mapsto> PStr ''best'']),
               SpecUpdate ''a'' [''quality'' \<mapsto> PStr ''720p'']] None of
        None \<Rightarrow> False
      | Some s \<Rightarrow> s ''quality'' = Some (PStr ''best''))"
  by (simp add: add_autotuned_streamer_def update_streamer_settings_def new_dict_def
      save_settings_def Let_def lower_def lower_char_def fresh_manager_def
      get_autotuned_streamers_def deref_def same_target_def)

text \<open>
  C9, amended. Take a store whose keys are in lower case (the empty store of a first
  run, or any store these calls have made) and any sequence of \<open>add\<close>, \<open>update\<close> and
  \<open>remove\<close> calls, whatever the writes of the settings file meet. Afterwards every
  key of what \<open>get_autotuned_streamers\<close> returns is in lower case and no key occurs
  twice: a target is never tracked twice under differing case. When moreover no policy
  object is shared, in the store before and among the calls (every \<open>add\<close> passes no
  dictionary or a dictionary of its own), the policy listed under a key in lower case
  is the net effect, on that target, of the calls that name it in any case, \<open>add\<close>
  keeping the policy as it is passed; nothing is listed under another key; and the
  policy of a target is listed under its identifier in lower case however the calls
  wrote it.
\<close>

theorem store_ops_net_effect:
  assumes "\<forall>k \<in> fst ` set (autotuned_streamers m). lower k = k"
  shows "(\<forall>k \<in> fst ` set (get_autotuned_streamers (fst (run_ops ops (m, f)))). lower k = k)
         \<and> (distinct (map fst (autotuned_streamers m)) \<longrightarrow>
              distinct (map fst (get_autotuned_streamers (fst (run_ops ops (m, f))))))
         \<and> (unshared m \<and> calls_of (map snd ops) = Some cs \<longrightarrow>
              deref (objects (fst (run_ops ops (m, f))))
                    (get_autotuned_streamers (fst (run_ops ops (m, f)))) t =
                (if lower t = t
                 then net_policy 
                        [''quality'' \<mapsto> default_quality m, ''notifications'' \<mapsto> PBool True,
                         ''auto_start'' \<mapsto> PBool True] t cs
                        (deref (objects m) (autotuned_streamers m) t)
                 else None)
              \<and> deref (objects (fst (run_ops ops (m, f))))
                      (get_autotuned_streamers (fst (run_ops ops (m, f)))) (lower u) =
                  net_policy 
                        [''quality'' \<mapsto> default_quality m, ''notifications'' \<mapsto> PBool True,
                         ''auto_start'' \<mapsto> PBool True] (lower u) cs
                    (deref (objects m) (autotuned_streamers m) (lower u)))"
proof -
  have dd: "[''quality'' \<mapsto> default_quality m, ''notifications'' \<mapsto> PBool True,
             ''auto_start'' \<mapsto> PBool True] = default_streamer_settings m"
    by (simp add: default_streamer_settings_def)
  have none: "deref (objects m) (autotuned_streamers m) k = None" if "lower k \<noteq> k" for k
    using assms that by (auto simp: deref_None_not_key)
  have a: "deref (objects (fst (run_ops ops (m, f))))
                 (get_autotuned_streamers (fst (run_ops ops (m, f)))) k =
           (if lower k = k
            then net_policy (default_streamer_settings m) k cs
                   (deref (objects m) (autotuned_streamers m) k)
            else None)"
    if "unshared m" "calls_of (map snd ops) = Some cs" for k
    using none [of k] run_ops_policy [OF that, of f k]
    by (simp add: get_autotuned_streamers_def)
  have c: "\<forall>k \<in> fst ` set (get_autotuned_streamers (fst (run_ops ops (m, f)))). lower k = k"
    using run_ops_keys [OF assms, of ops f] by (simp add: get_autotuned_streamers_def)
  have d: "distinct (map fst (autotuned_streamers m)) \<longrightarrow>
              distinct (map fst (get_autotuned_streamers (fst (run_ops ops (m, f)))))"
    by (simp add: get_autotuned_streamers_def run_ops_distinct)
  show ?thesis unfolding dd using a [of t] a [of "lower u"] c d by (simp add: lower_idem)
qed

theorem store_ops_net_effect_witness:
  "fst ` set (autotuned_streamers fresh_manager) = {}
   \<and> unshared fresh_manager
   \<and> get_autotuned_streamers
       (fst (run_ops [(Written, Add ''A'' None), (OpenFails, Remove ''a'')] (fresh_manager, Missing)))
      = []
   \<and> deref
       (objects (fst (run_ops [(Written, Add ''Ninja'' None),
                               (DumpFails, Update ''NINJA'' [''quality'' \<mapsto> PStr ''720p''])]
                        (fresh_manager, Missing))))
       (get_autotuned_streamers
          (fst (run_ops [(Written, Add ''Ninja'' None),
                         (DumpFails, Update ''NINJA'' [''quality'' \<mapsto> PStr ''720p''])]
                  (fresh_manager, Missing)))) ''ninja''
      = Some [''quality'' \<mapsto> PStr ''720p'', ''notifications'' \<mapsto> PBool True,
              ''auto_start'' \<mapsto> PBool True]
   \<and> deref
       (objects (fst (run_ops [(Written, Add ''Ninja'' None),
                               (DumpFails, Update ''NINJA'' [''quality'' \<mapsto> PStr ''720p''])]
                        (fresh_manager, Missing))))
       (get_autotuned_streamers
          (fst (run_ops [(Written, Add ''Ninja'' None),
                         (DumpFails, Update ''NINJA'' [''quality'' \<mapsto> PStr ''720p''])]
                  (fresh_manager, Missing)))) ''Ninja''
      = None"
proof -
  have e: "fst ` set (autotuned_streamers fresh_manager) = {}"
    by (simp add: fresh_manager_def)
  then have h: "\<forall>k \<in> fst ` set (autotuned_streamers fresh_manager). lower k = k"
    by simp
  have us: "unshared fresh_manager"
    by (simp add: unshared_def fresh_manager_def)
  have l: "lower ''ninja'' = ''ninja''" "lower ''Ninja'' = ''ninja''" "lower ''NINJA'' = ''ninja''"
    by (simp_all add: lower_def lower_char_def)
  have r: "get_autotuned_streamers
       (fst (run_ops [(Written, Add ''A'' None), (OpenFails, Remove ''a'')] (fresh_manager, Missing)))
      = []"
    by (simp add: get_autotuned_streamers_def add_autotuned_streamer_def new_dict_def
        remove_autotuned_streamer_def save_settings_def Let_def lower_def lower_char_def
        fresh_manager_def)
  have n: "deref (objects fresh_manager) (autotuned_streamers fresh_manager) k = None" for k
    by (simp add: fresh_manager_def deref_def)
  have cs: "calls_of (map snd [(Written, Add ''Ninja'' None),
                               (DumpFails, Update ''NINJA'' [''quality'' \<mapsto> PStr ''720p''])])
              = Some [SpecAdd ''Ninja'' None, SpecUpdate ''NINJA'' [''quality'' \<mapsto> PStr ''720p'']]"
    by simp
  show ?thesis
    using e us r
      store_ops_net_effect [OF h,
        where ops = "[(Written, Add ''Ninja'' None), (DumpFails, Update ''NINJA'' [''quality'' \<mapsto> PStr ''720p''])]"
          and cs = "[SpecAdd ''Ninja'' None, SpecUpdate ''NINJA'' [''quality'' \<mapsto> PStr ''720p'']]"
          and f = Missing and t = "''ninja''" and u = "''ninja''"]
      store_ops_net_effect [OF h,
        where ops = "[(Written, Add ''Ninja'' None), (DumpFails, Update ''NINJA'' [''quality'' \<mapsto> PStr ''720p''])]"
          and cs = "[SpecAdd ''Ninja'' None, SpecUpdate ''NINJA'' [''quality'' \<mapsto> PStr ''720p'']]"
          and f = Missing and t = "''Ninja''" and u = "''ninja''"]
    by (simp add: l n same_target_def fresh_manager_def fun_upd_twist)
qed

section \<open>Starting and stopping a stream\<close>

text \<open>
  C6. A call of \<open>start_stream\<close> with an empty channel name returns false with the reason
  ``Channel name is required''; a call whose process launch raises returns false with
  the text of the exception; and every call that returns false leaves the handler, and
  so the registry of active streams, exactly as it was: no session is made.
\<close>

theorem start_stream_failure_keeps_registry:
  "(chan = [] \<longrightarrow> start_stream env chan q params h = ((False, ''Channel name is required''), h))
   \<and> (\<forall>sid cmd e. start_stream_prepare (urandom_hex env) chan q params h = Inr (sid, cmd)
          \<and> spawn env cmd = Inl e \<longrightarrow> start_stream env chan q params h = ((False, e), h))
   \<and> (\<not> fst (fst (start_stream env chan q params h)) \<longrightarrow> snd (start_stream env chan q params h) = h)"
  by (auto simp: start_stream_def start_stream_prepare_def start_stream_finish_def Let_def
      split: sum.splits option.splits prod.splits if_splits)

theorem start_stream_failure_keeps_registry_witness:
  "start_stream failing_launch '''' (PStr ''best'') None fresh_handler
     = ((False, ''Channel name is required''), fresh_handler)
   \<and> start_stream failing_launch ''ninja'' (PStr ''best'') None fresh_handler
     = ((False, ''No such file or directory''), fresh_handler)"
proof -
  have p: "start_stream_prepare (urandom_hex failing_launch) ''ninja'' (PStr ''best'') None fresh_handler
        = Inr (''ninja_best_0a1b2c3d'',
               [''streamlink'', ''https://twitch.tv/ninja'', ''best'', ''--twitch-disable-ads''])"
    by (simp add: start_stream_prepare_def failing_launch_def fresh_handler_def player_args_def)
  have s: "spawn failing_launch
             [''streamlink'', ''https://twitch.tv/ninja'', ''best'', ''--twitch-disable-ads'']
           = Inl ''No such file or directory''"
    by (simp add: failing_launch_def)
  show ?thesis
    using start_stream_failure_keeps_registry
        [where chan = "''''" and env = failing_launch and q = "PStr ''best''" and params = None
           and h = fresh_handler]
      start_stream_failure_keeps_registry
        [where chan = "''ninja''" and env = failing_launch and q = "PStr ''best''" and params = None
           and h = fresh_handler] p s
    by simp
qed

lemma delete_not_key: "k \<notin> fst ` set (AList.delete k al)"
  by (induction al) auto

text \<open>
  C7, as the claim words it, fails in its second half. A first call whose process
  does not end in five seconds and whose \<open>kill()\<close> raises returns false and leaves
  the stream registered; a second call with the same id, for which the process ends,
  finds the stream and returns true: it does not report that the id was not found.
\<close>

theorem second_stop_after_failed_stop:
  "stop_stream kill_fails ''ninja_best_0a1b2c3d'' one_stream_handler = (False, one_stream_handler)
   \<and> stop_stream graceful_stop ''ninja_best_0a1b2c3d''
        (snd (stop_stream kill_fails ''ninja_best_0a1b2c3d'' one_stream_handler))
      = (True, fresh_handler)"
  by (simp add: stop_stream_def one_stream_handler_def kill_fails_def graceful_stop_def
      fresh_handler_def)

text \<open>
  C7, amended. For a stream id that is no key of the registry, \<open>stop_stream\<close> returns
  false and leaves the handler as it was, and so does a second call with that id. After
  a call that stopped a stream (it returned true) the id is no key any more, so a second
  call with the same id returns false and changes nothing, whatever the process calls
  would meet. After a call that found the stream and failed (a process call raised) the
  handler is as it was, the stream still registered, and a second call with the same id
  does what a first call would do. No call raises: every exception of the process
  calls is a returned false.
\<close>

theorem stop_stream_unknown_id:
  "(sid \<notin> fst ` set (active_streams h) \<longrightarrow>
      stop_stream env sid h = (False, h)
      \<and> stop_stream env' sid (snd (stop_stream env sid h)) = (False, h))
   \<and> (fst (stop_stream env sid h) \<longrightarrow>
        sid \<notin> fst ` set (active_streams (snd (stop_stream env sid h)))
        \<and> stop_stream env' sid (snd (stop_stream env sid h)) = (False, snd (stop_stream env sid h)))
   \<and> (sid \<in> fst ` set (active_streams h) \<and> \<not> fst (stop_stream env sid h) \<longrightarrow>
        snd (stop_stream env sid h) = h
        \<and> sid \<in> fst ` set (active_streams (snd (stop_stream env sid h)))
        \<and> stop_stream env' sid (snd (stop_stream env sid h)) = stop_stream env' sid h)"
  by (auto simp: stop_stream_def delete_not_key split: wait_result.splits if_splits)

theorem stop_stream_unknown_id_witness:
  "''shroud_best_00000000'' \<notin> fst ` set (active_streams one_stream_handler)
   \<and> stop_stream graceful_stop ''shroud_best_00000000'' one_stream_handler = (False, one_stream_handler)
   \<and> fst (stop_stream graceful_stop ''ninja_best_0a1b2c3d'' one_stream_handler)
   \<and> stop_stream graceful_stop ''ninja_best_0a1b2c3d''
        (snd (stop_stream graceful_stop ''ninja_best_0a1b2c3d'' one_stream_handler))
      = (False, fresh_handler)
   \<and> stop_stream kill_fails ''ninja_best_0a1b2c3d''
        (snd (stop_stream kill_fails ''ninja_best_0a1b2c3d'' one_stream_handler))
      = (False, one_stream_handler)"
proof -
  have a: "''shroud_best_00000000'' \<notin> fst ` set (active_streams one_stream_handler)"
    by (simp add: one_stream_handler_def)
  have b: "stop_stream graceful_stop ''ninja_best_0a1b2c3d'' one_stream_handler = (True, fresh_handler)"
    by (simp add: stop_stream_def one_stream_handler_def graceful_stop_def fresh_handler_def)
  have c: "''ninja_best_0a1b2c3d'' \<in> fst ` set (active_streams one_stream_handler)"
    by (simp add: one_stream_handler_def)
  have d: "stop_stream kill_fails ''ninja_best_0a1b2c3d'' one_stream_handler = (False, one_stream_handler)"
    by (simp add: stop_stream_def one_stream_handler_def kill_fails_def)
  show ?thesis
    using a b c d
      stop_stream_unknown_id
        [where sid = "''shroud_best_00000000''" and h = one_stream_handler
           and env = graceful_stop and env' = graceful_stop]
      stop_stream_unknown_id
        [where sid = "''ninja_best_0a1b2c3d''" and h = one_stream_handler
           and env = graceful_stop and env' = graceful_stop]
      stop_stream_unknown_id
        [where sid = "''ninja_best_0a1b2c3d''" and h = one_stream_handler
           and env = kill_fails and env' = kill_fails]
    by simp
qed

section \<open>One tick\<close>

lemma length_update_le: "length (AList.update k v al) \<le> Suc (length al)"
  by (induction al) auto

lemma start_stream_length:
  "length (active_streams (snd (start_stream env chan q params h))) \<le> Suc (length (active_streams h))"
  by (auto simp: start_stream_def start_stream_finish_def length_update_le
      split: sum.splits prod.splits)

lemma start_loop_store:
  "autotuned_streamers (snd (start_loop env us st m)) = autotuned_streamers m"
  by (induction us arbitrary: st m) (auto split: option.splits prod.splits simp: Let_def)

lemma start_loop_live:
  "currently_live (snd (start_loop env us st m)) = currently_live m"
  by (induction us arbitrary: st m) (auto split: option.splits prod.splits simp: Let_def)

lemma start_loop_length:
  "length (active_streams (stream_handler (snd (start_loop env us st m))))
     \<le> length (active_streams (stream_handler m)) + length us"
proof (induction us arbitrary: st m)
  case Nil
  then show ?case by simp
next
  case (Cons u us)
  show ?case
  proof (cases "deref (objects m) (autotuned_streamers m) u")
    case None
    then show ?thesis by simp
  next
    case (Some s)
    obtain ok sid h' where r:
      "start_stream (env u) u (dict_get s ''quality'' (default_quality m)) None (stream_handler m)
         = ((ok, sid), h')"
      by (metis surj_pair)
    have "length (active_streams h') \<le> Suc (length (active_streams (stream_handler m)))"
      using start_stream_length
        [of "env u" u "dict_get s ''quality'' (default_quality m)" None "stream_handler m"] r
      by simp
    moreover have
      "length (active_streams (stream_handler
          (snd (start_loop env us (if ok then st @ [sid] else st) (m\<lparr>stream_handler := h'\<rparr>)))))
        \<le> length (active_streams h') + length us"
      using Cons.IH [of "if ok then st @ [sid] else st" "m\<lparr>stream_handler := h'\<rparr>"] by simp
    ultimately show ?thesis using Some r by (simp add: Let_def)
  qed
qed

lemma start_loop_no_key_error:
  "\<forall>u \<in> set us. u \<in> fst ` set (autotuned_streamers m) \<Longrightarrow>
   \<exists>ids. fst (start_loop env us st m) = Inr ids"
proof (induction us arbitrary: st m)
  case Nil
  then show ?case by simp
next
  case (Cons u us)
  then have "deref (objects m) (autotuned_streamers m) u \<noteq> None"
    by (simp add: deref_None_not_key)
  then obtain s where s: "deref (objects m) (autotuned_streamers m) u = Some s" by auto
  obtain ok sid h' where r:
    "start_stream (env u) u (dict_get s ''quality'' (default_quality m)) None (stream_handler m)
       = ((ok, sid), h')"
    by (metis surj_pair)
  have "\<forall>u \<in> set us. u \<in> fst ` set (autotuned_streamers (m\<lparr>stream_handler := h'\<rparr>))"
    using Cons.prems by simp
  from Cons.IH [OF this] show ?case using s r by (simp add: Let_def)
qed

lemma set_py_slice_to: "set (py_slice_to xs k) \<subseteq> set xs"
  by (auto simp: py_slice_to_def dest: in_set_takeD)

lemma set_limit_streams: "set (limit_streams now m cs) \<subseteq> set cs"
  using set_py_slice_to [of cs] by (auto simp: limit_streams_def Let_def)

lemma length_get_active_streams: "length (get_active_streams now h) = length (active_streams h)"
  by (simp add: get_active_streams_def)

lemma limit_streams_within:
  assumes "int (length (active_streams (stream_handler m))) \<le> max_concurrent_streams m"
  shows "int (length (active_streams (stream_handler m))) + int (length (limit_streams now m cs))
           \<le> max_concurrent_streams m"
  using assms by (auto simp: limit_streams_def Let_def py_slice_to_def length_get_active_streams)

lemma limit_streams_take:
  assumes "int (length (active_streams (stream_handler m))) \<le> max_concurrent_streams m"
  shows "limit_streams now m cs
           = take (nat (max_concurrent_streams m - int (length (active_streams (stream_handler m))))) cs"
proof (cases "int (length (active_streams (stream_handler m))) + int (length cs) > max_concurrent_streams m")
  case True
  with assms show ?thesis
    by (simp add: limit_streams_def Let_def py_slice_to_def length_get_active_streams)
next
  case False
  then have "length cs \<le> nat (max_concurrent_streams m - int (length (active_streams (stream_handler m))))"
    by linarith
  with False show ?thesis
    by (simp add: limit_streams_def Let_def length_get_active_streams)
qed

lemma active_channels_eq:
  "set (map (\<lambda>(uu, details). lower (info_channel details)) (get_active_streams now h))
     = (\<lambda>(sid, e). lower (channel e)) ` set (active_streams h)"
  by (force simp: get_active_streams_def)

lemma streams_to_start_subset:
  "u \<in> set (streams_to_start now m newly) \<Longrightarrow>
     u \<in> set newly
     \<and> lower u \<notin> (\<lambda>(sid, e). lower (channel e)) ` set (active_streams (stream_handler m))"
  unfolding streams_to_start_def Let_def active_channels_eq by simp

lemma start_autotuned_streams_state:
  "live \<noteq> [] \<Longrightarrow>
   snd (snd (start_autotuned_streams env live m)) =
     snd (start_loop (launch env)
            (limit_streams (loop_clock env) (m\<lparr>currently_live := set live\<rparr>)
               (streams_to_start (loop_clock env) (m\<lparr>currently_live := set live\<rparr>)
                  (filter (\<lambda>u. u \<notin> currently_live m) live)))
            [] (m\<lparr>currently_live := set live\<rparr>))"
  by (simp add: start_autotuned_streams_def Let_def split: prod.splits)

lemma start_autotuned_streams_result:
  "live \<noteq> [] \<Longrightarrow>
   fst (start_autotuned_streams env live m) =
     fst (start_loop (launch env)
            (limit_streams (loop_clock env) (m\<lparr>currently_live := set live\<rparr>)
               (streams_to_start (loop_clock env) (m\<lparr>currently_live := set live\<rparr>)
                  (filter (\<lambda>u. u \<notin> currently_live m) live)))
            [] (m\<lparr>currently_live := set live\<rparr>))"
  by (simp add: start_autotuned_streams_def Let_def split: prod.splits)

lemmas tick_eval =
  start_autotuned_streams_def streams_to_start_def limit_streams_def get_active_streams_def
  auto_start_enabled_def notifications_enabled_def dict_get_def lower_def lower_char_def
  start_stream_def start_stream_prepare_def start_stream_finish_def player_args_def
  py_slice_to_def Let_def default_streamer_settings_def deref_def
  good_tick_def good_launch_def tracked_manager_def fresh_manager_def fresh_handler_def
  two_stream_handler_def

lemma start_autotuned_streams_replaces_nonempty:
  "live \<noteq> [] \<Longrightarrow> currently_live (snd (snd (start_autotuned_streams env live m))) = set live"
  by (simp add: start_autotuned_streams_state start_loop_live)

text \<open>
  C1. For a live set that is not empty the live set observed before is replaced by it,
  also when the second loop raises (\<open>start_autotuned_streams_replaces_nonempty\<close>). For
  the empty live set the function returns before the assignment: with \<open>ninja\<close> observed
  live before and nobody live now, \<open>_currently_live\<close> is still \<open>{ninja}\<close> after the
  call, and not the empty set passed. So when \<open>ninja\<close> is live again at the next tick,
  it is not newly live and no stream is started for it, as one would be had the empty
  set replaced the snapshot.
\<close>

theorem empty_live_set_keeps_stale_snapshot:
  "start_autotuned_streams env [] ninja_seen_manager = (Inr [], [], ninja_seen_manager)
   \<and> currently_live (snd (snd (start_autotuned_streams env [] ninja_seen_manager))) = {''ninja''}
   \<and> currently_live (snd (snd (start_autotuned_streams env [] ninja_seen_manager))) \<noteq> set []
   \<and> fst (start_autotuned_streams good_tick [''ninja'']
            (snd (snd (start_autotuned_streams env [] ninja_seen_manager))))
       = Inr []
   \<and> fst (start_autotuned_streams good_tick [''ninja'']
            (ninja_seen_manager\<lparr>currently_live := set []\<rparr>))
       = Inr [''ninja_best_0a1b2c3d'']"
proof -
  have stale: "start_autotuned_streams env [] ninja_seen_manager = (Inr [], [], ninja_seen_manager)"
    by (simp add: start_autotuned_streams_def)
  have seen: "currently_live ninja_seen_manager = {''ninja''}"
    by (simp add: ninja_seen_manager_def)
  have again: "fst (start_autotuned_streams good_tick [''ninja''] ninja_seen_manager) = Inr []"
    by (simp add: tick_eval ninja_seen_manager_def)
  have fresh: "fst (start_autotuned_streams good_tick [''ninja'']
                 (ninja_seen_manager\<lparr>currently_live := set []\<rparr>))
               = Inr [''ninja_best_0a1b2c3d'']"
    by (simp add: tick_eval ninja_seen_manager_def)
  show ?thesis using stale seen again fresh by simp
qed

text \<open>
  When no more streams are active than the limit allows, the limit holds after the
  admission step, whether the step returns or raises, and the second loop is run on
  the first \<open>max_concurrent_streams - count(active streams)\<close> candidates, in their
  order (on all of them when there are no more than that).
\<close>

lemma admission_within_cap:
  assumes "int (length (active_streams (stream_handler m))) \<le> max_concurrent_streams m"
  shows "int (length (active_streams (stream_handler (snd (snd (start_autotuned_streams env live m))))))
           \<le> max_concurrent_streams m
         \<and> (live = [] \<or>
              start_autotuned_streams env live m =
                (let m1 = m\<lparr>currently_live := set live\<rparr>;
                     to_start = streams_to_start (loop_clock env) m1
                                  (filter (\<lambda>u. u \<notin> currently_live m) live);
                     available_slots = max_concurrent_streams m
                                         - int (length (active_streams (stream_handler m)));
                     (res, m2) = start_loop (launch env) (take (nat available_slots) to_start) [] m1
                 in (res, filter (notifications_enabled m1) to_start, m2)))"
proof (cases "live = []")
  case True
  with assms show ?thesis by (simp add: start_autotuned_streams_def)
next
  case False
  let ?m1 = "m\<lparr>currently_live := set live\<rparr>"
  let ?to_start = "streams_to_start (loop_clock env) ?m1 (filter (\<lambda>u. u \<notin> currently_live m) live)"
  let ?admitted = "limit_streams (loop_clock env) ?m1 ?to_start"
  have cap: "int (length (active_streams (stream_handler ?m1))) \<le> max_concurrent_streams ?m1"
    using assms by simp
  have "int (length (active_streams (stream_handler (snd (start_loop (launch env) ?admitted [] ?m1)))))
          \<le> int (length (active_streams (stream_handler ?m1))) + int (length ?admitted)"
    using start_loop_length [of "launch env" ?admitted "[]" ?m1] by linarith
  also have "\<dots> \<le> max_concurrent_streams ?m1"
    using limit_streams_within [OF cap] .
  finally have a:
    "int (length (active_streams (stream_handler (snd (snd (start_autotuned_streams env live m))))))
       \<le> max_concurrent_streams m"
    using False by (simp add: start_autotuned_streams_state)
  have b: "?admitted
             = take (nat (max_concurrent_streams m - int (length (active_streams (stream_handler m)))))
                 ?to_start"
    using limit_streams_take [OF cap] by simp
  have c: "start_autotuned_streams env live m =
             (case start_loop (launch env) ?admitted [] ?m1 of
                (res, m2) \<Rightarrow> (res, filter (notifications_enabled ?m1) ?to_start, m2))"
    using False by (simp add: start_autotuned_streams_def Let_def)
  show ?thesis using a c False unfolding b by (simp add: Let_def)
qed

text \<open>
  C2. The claim holds of the code while no more streams are active than the limit
  allows (\<open>admission_within_cap\<close>); it fails when more are, as they are once streams
  were started by hand. The limit is one and two streams are active, so no slot is
  available and no candidate is to be started. With one candidate the code starts
  none. With three candidates the slice \<open>streams_to_start[:1 - 2]\<close> drops the last
  candidate only: the first two are started and four streams are active after the
  tick.
\<close>

theorem admission_over_cap_starts_more:
  "max_concurrent_streams (tracked_manager\<lparr>max_concurrent_streams := 1, stream_handler := two_stream_handler\<rparr>) = 1
   \<and> length (active_streams (stream_handler
        (tracked_manager\<lparr>max_concurrent_streams := 1, stream_handler := two_stream_handler\<rparr>))) = 2
   \<and> fst (start_autotuned_streams good_tick [''a'']
          (tracked_manager\<lparr>max_concurrent_streams := 1, stream_handler := two_stream_handler\<rparr>))
     = Inr []
   \<and> fst (start_autotuned_streams good_tick [''a'', ''b'', ''c'']
          (tracked_manager\<lparr>max_concurrent_streams := 1, stream_handler := two_stream_handler\<rparr>))
     = Inr [''a_best_0a1b2c3d'', ''b_best_0a1b2c3d'']
   \<and> map fst (active_streams (stream_handler (snd (snd
         (start_autotuned_streams good_tick [''a'', ''b'', ''c'']
          (tracked_manager\<lparr>max_concurrent_streams := 1, stream_handler := two_stream_handler\<rparr>))))))
       = [''x_best_00000001'', ''y_best_00000002'', ''a_best_0a1b2c3d'', ''b_best_0a1b2c3d'']"
  by (simp add: tick_eval)

text \<open>
  C5. If every live name that was not live before and is not the channel of an active
  stream is a key of the store, \<open>start_autotuned_streams\<close> does not raise: every
  quality lookup finds its key. Without that it can raise: \<open>n\<close> is live and no key of
  the store, the auto-start test defaults to true for it, it is admitted between \<open>b\<close>
  and \<open>c\<close>, its lookup raises \<open>KeyError\<close>, and \<open>c\<close>, admitted after it, is not
  started: the registry holds the stream of \<open>b\<close> only.
\<close>

theorem quality_lookup_needs_tracked_names:
  "((\<forall>u \<in> set live. u \<notin> currently_live m
        \<and> lower u \<notin> (\<lambda>(sid, e). lower (channel e)) ` set (active_streams (stream_handler m))
        \<longrightarrow> u \<in> fst ` set (autotuned_streamers m))
     \<longrightarrow> (\<exists>ids. fst (start_autotuned_streams env live m) = Inr ids))
   \<and> ''n'' \<notin> fst ` set (autotuned_streamers tracked_manager)
   \<and> auto_start_enabled tracked_manager ''n''
   \<and> limit_streams (loop_clock good_tick) tracked_manager
        (streams_to_start (loop_clock good_tick) tracked_manager [''b'', ''n'', ''c''])
      = [''b'', ''n'', ''c'']
   \<and> fst (start_autotuned_streams good_tick [''b'', ''n'', ''c''] tracked_manager) = Inl (KeyError ''n'')
   \<and> map fst (active_streams (stream_handler (snd (snd
         (start_autotuned_streams good_tick [''b'', ''n'', ''c''] tracked_manager)))))
       = [''b_best_0a1b2c3d'']"
proof -
  have universal: "\<exists>ids. fst (start_autotuned_streams env live m) = Inr ids"
    if pre: "\<forall>u \<in> set live. u \<notin> currently_live m
        \<and> lower u \<notin> (\<lambda>(sid, e). lower (channel e)) ` set (active_streams (stream_handler m))
        \<longrightarrow> u \<in> fst ` set (autotuned_streamers m)"
  proof (cases "live = []")
    case True
    then show ?thesis by (simp add: start_autotuned_streams_def)
  next
    case False
    let ?m1 = "m\<lparr>currently_live := set live\<rparr>"
    let ?to_start = "streams_to_start (loop_clock env) ?m1 (filter (\<lambda>u. u \<notin> currently_live m) live)"
    let ?admitted = "limit_streams (loop_clock env) ?m1 ?to_start"
    have "\<forall>u \<in> set ?admitted. u \<in> fst ` set (autotuned_streamers ?m1)"
    proof
      fix u assume "u \<in> set ?admitted"
      then have "u \<in> set ?to_start" using set_limit_streams by blast
      from streams_to_start_subset [OF this] pre show "u \<in> fst ` set (autotuned_streamers ?m1)"
        by simp
    qed
    from start_loop_no_key_error [OF this] show ?thesis
      using False by (simp add: start_autotuned_streams_result)
  qed
  have concrete:
    "''n'' \<notin> fst ` set (autotuned_streamers tracked_manager)
     \<and> auto_start_enabled tracked_manager ''n''
     \<and> limit_streams (loop_clock good_tick) tracked_manager
          (streams_to_start (loop_clock good_tick) tracked_manager [''b'', ''n'', ''c''])
        = [''b'', ''n'', ''c'']
     \<and> fst (start_autotuned_streams good_tick [''b'', ''n'', ''c''] tracked_manager) = Inl (KeyError ''n'')
     \<and> map fst (active_streams (stream_handler (snd (snd
           (start_autotuned_streams good_tick [''b'', ''n'', ''c''] tracked_manager)))))
         = [''b_best_0a1b2c3d'']"
    by (simp add: tick_eval)
  show ?thesis using universal concrete by blast
qed

theorem quality_lookup_needs_tracked_names_witness:
  "set [''b'', ''c''] \<subseteq> fst ` set (autotuned_streamers tracked_manager)
   \<and> (\<exists>ids. fst (start_autotuned_streams good_tick [''b'', ''c''] tracked_manager) = Inr ids)"
proof -
  have s: "set [''b'', ''c''] \<subseteq> fst ` set (autotuned_streamers tracked_manager)"
    by (simp add: tracked_manager_def)
  then have "\<forall>u \<in> set [''b'', ''c'']. u \<notin> currently_live tracked_manager
        \<and> lower u \<notin> (\<lambda>(sid, e). lower (channel e)) ` set (active_streams (stream_handler tracked_manager))
        \<longrightarrow> u \<in> fst ` set (autotuned_streamers tracked_manager)"
    by blast
  with quality_lookup_needs_tracked_names
         [where live = "[''b'', ''c'']" and m = tracked_manager and env = good_tick]
  have "\<exists>ids. fst (start_autotuned_streams good_tick [''b'', ''c''] tracked_manager) = Inr ids"
    by blast
  with s show ?thesis by blast
qed

section \<open>Stopping the check loop\<close>

lemmas loop_eval =
  start_def stop_def cancel_def resume_def loop_head_def after_provider_def after_spawn_def
  live_usernames_def idle_world_def in_tick_world_def

lemma in_tick_world_eq:
  "in_tick_world =
     \<lparr> mgr = tracked_manager\<lparr>running := True, check_task := Some 0,
               last_check_time := 1700000000, currently_live := {''a'', ''b''}\<rparr>,
       tasks = [\<lparr>pc = AwaitSpawn ''a'' (PStr ''best'') ''a_best_0a1b2c3d''
                       [''streamlink'', ''https://twitch.tv/a'', ''best'', ''--twitch-disable-ads'']
                       [''b''] [],
                 cancel_requested = False\<rparr>] \<rparr>"
  by (simp add: loop_eval tick_eval insert_commute)

subsection \<open>What the steps keep\<close>

lemma loop_inv_iff:
  "loop_inv w \<longleftrightarrow>
     (\<forall>j < length (tasks w).
        (running (mgr w) \<and> check_task (mgr w) = Some j)
        \<or> pc (tasks w ! j) = Finished \<or> cancel_requested (tasks w ! j))"
  by (auto simp: loop_inv_def list_all_iff in_set_enumerate_eq)

lemma all_cancelled_iff:
  "all_cancelled w \<longleftrightarrow>
     (\<forall>j < length (tasks w). pc (tasks w ! j) = Finished \<or> cancel_requested (tasks w ! j))"
  by (simp add: all_cancelled_def list_all_length)

lemma loop_inv_initial: "loop_inv \<lparr>mgr = m, tasks = []\<rparr>"
  by (simp add: loop_inv_def)

lemma step_flags:
  "running (snd (loop_head env m)) = running m"
  "check_task (snd (loop_head env m)) = check_task m"
  "running (snd (after_provider env m)) = running m"
  "check_task (snd (after_provider env m)) = check_task m"
  "running (snd (after_spawn env u q sid cmd rest started m)) = running m"
  "check_task (snd (after_spawn env u q sid cmd rest started m)) = check_task m"
  by (simp_all add: loop_head_def after_provider_def after_spawn_def Let_def split: prod.splits)

lemma resume_flags:
  "running (mgr (resume env i w)) = running (mgr w)"
  "check_task (mgr (resume env i w)) = check_task (mgr w)"
  by (cases "pc (tasks w ! i)"; simp add: resume_def Let_def case_prod_beta step_flags)+

lemma resume_length: "length (tasks (resume env i w)) = length (tasks w)"
  by (simp add: resume_def Let_def case_prod_beta)

lemma resume_other: "j \<noteq> i \<Longrightarrow> tasks (resume env i w) ! j = tasks w ! j"
  by (simp add: resume_def Let_def case_prod_beta)

lemma resume_cancel_flag:
  "j < length (tasks w) \<Longrightarrow>
   cancel_requested (tasks (resume env i w) ! j) = cancel_requested (tasks w ! j)"
  by (cases "j = i") (simp_all add: resume_def Let_def case_prod_beta)

lemma resume_ended:
  "j < length (tasks w) \<Longrightarrow> pc (tasks w ! j) = Finished \<Longrightarrow>
   pc (tasks (resume env i w) ! j) = Finished"
  by (cases "j = i") (simp_all add: resume_def Let_def case_prod_beta)

lemma resume_cancelled:
  assumes "i < length (tasks w)" "pc (tasks w ! i) = Finished \<or> cancel_requested (tasks w ! i)"
  shows "mgr (resume env i w) = mgr w"
  using assms by (auto simp: resume_def Let_def)

lemma loop_inv_start: "loop_inv w \<Longrightarrow> loop_inv (start w)"
  unfolding loop_inv_iff by (auto simp: start_def nth_append)

lemma loop_inv_stop: "loop_inv w \<Longrightarrow> loop_inv (stop w)"
  unfolding loop_inv_iff
  by (auto simp: stop_def cancel_def Let_def nth_list_update split: option.splits)

lemma loop_inv_resume:
  assumes "loop_inv w"
  shows "loop_inv (resume env i w)"
  unfolding loop_inv_iff
proof (intro allI impI)
  fix j assume "j < length (tasks (resume env i w))"
  then have j: "j < length (tasks w)" by (simp add: resume_length)
  from assms j consider
      (held) "running (mgr w) \<and> check_task (mgr w) = Some j"
    | (ended) "pc (tasks w ! j) = Finished"
    | (cancelled) "cancel_requested (tasks w ! j)"
    unfolding loop_inv_iff by blast
  then show "(running (mgr (resume env i w)) \<and> check_task (mgr (resume env i w)) = Some j)
       \<or> pc (tasks (resume env i w) ! j) = Finished
       \<or> cancel_requested (tasks (resume env i w) ! j)"
  proof cases
    case held
    then show ?thesis by (simp add: resume_flags)
  next
    case ended
    then show ?thesis using j by (simp add: resume_ended)
  next
    case cancelled
    then show ?thesis using j by (simp add: resume_cancel_flag)
  qed
qed

lemma stop_all_cancelled: "loop_inv w \<Longrightarrow> all_cancelled (stop w)"
  unfolding loop_inv_iff all_cancelled_iff
  by (auto simp: stop_def cancel_def Let_def nth_list_update split: option.splits)

lemma resume_all_cancelled:
  assumes "all_cancelled w"
  shows "mgr (resume env i w) = mgr w \<and> all_cancelled (resume env i w)"
proof (cases "i < length (tasks w)")
  case True
  with assms have "pc (tasks w ! i) = Finished \<or> cancel_requested (tasks w ! i)"
    by (simp add: all_cancelled_iff)
  from resume_cancelled [OF True this] have "mgr (resume env i w) = mgr w" .
  moreover have "all_cancelled (resume env i w)"
    unfolding all_cancelled_iff
  proof (intro allI impI)
    fix j assume "j < length (tasks (resume env i w))"
    then have j: "j < length (tasks w)" by (simp add: resume_length)
    with assms have "pc (tasks w ! j) = Finished \<or> cancel_requested (tasks w ! j)"
      by (simp add: all_cancelled_iff)
    then show "pc (tasks (resume env i w) ! j) = Finished \<or> cancel_requested (tasks (resume env i w) ! j)"
      using j resume_ended [of j w env i] resume_cancel_flag [of j w env i] by blast
  qed
  ultimately show ?thesis by simp
next
  case False
  with assms show ?thesis by (simp add: resume_def)
qed

lemma run_schedule_all_cancelled:
  "all_cancelled w \<Longrightarrow> mgr (run_schedule sched w) = mgr w"
proof (induction sched arbitrary: w)
  case Nil
  then show ?case by simp
next
  case (Cons x sched)
  obtain env i where x: "x = (env, i)" by (cases x)
  from resume_all_cancelled [OF Cons.prems, of env i]
  have "mgr (resume env i w) = mgr w" "all_cancelled (resume env i w)" by simp_all
  with Cons.IH [of "resume env i w"] show ?case by (simp add: x)
qed

subsection \<open>A tick that is left alone\<close>

text \<open>
  The steps of the check task, when nothing cancels it, make the tick that
  \<open>check_and_start_streams\<close> describes: from the head of the loop the task reaches its
  sleep, and the manager is then the one \<open>check_and_start_streams\<close> returns.
\<close>

lemma prepare_fails_false:
  "start_stream_prepare hex chan q params h = Inl res \<Longrightarrow> fst res = False"
  by (auto simp: start_stream_prepare_def Let_def split: if_splits option.splits)

lemma resume_at_spawn:
  assumes "i < length (tasks w)" "\<not> cancel_requested (tasks w ! i)"
    and "pc (tasks w ! i) = AwaitSpawn u q sid cmd rest st"
  shows "mgr (resume env i w) = snd (after_spawn env u q sid cmd rest st (mgr w))"
    and "pc (tasks (resume env i w) ! i) = fst (after_spawn env u q sid cmd rest st (mgr w))"
  using assms by (simp_all add: resume_def Let_def case_prod_beta)

lemma advance_runs_start_loop:
  assumes "i < length (tasks w)" "\<not> cancel_requested (tasks w ! i)"
    and "pc (tasks w ! i) = advance (launch env) us st (mgr w)"
  shows "\<exists>n. pc (tasks (resume_n n env i w) ! i) = Sleeping
             \<and> mgr (resume_n n env i w) = snd (start_loop (launch env) us st (mgr w))"
  using assms
proof (induction us arbitrary: w st)
  case Nil
  then have "pc (tasks (resume_n 0 env i w) ! i) = Sleeping
             \<and> mgr (resume_n 0 env i w) = snd (start_loop (launch env) [] st (mgr w))"
    by simp
  then show ?case by blast
next
  case (Cons u us)
  show ?case
  proof (cases "deref (objects (mgr w)) (autotuned_streamers (mgr w)) u")
    case None
    with Cons.prems have "pc (tasks (resume_n 0 env i w) ! i) = Sleeping
             \<and> mgr (resume_n 0 env i w) = snd (start_loop (launch env) (u # us) st (mgr w))"
      by simp
    then show ?thesis by blast
  next
    case (Some s)
    let ?q = "dict_get s ''quality'' (default_quality (mgr w))"
    show ?thesis
    proof (cases "start_stream_prepare (urandom_hex (launch env u)) u ?q None (stream_handler (mgr w))")
      case (Inl res)
      have f: "fst res = False" using prepare_fails_false [OF Inl] .
      have pc: "pc (tasks w ! i) = advance (launch env) us st (mgr w)"
        using Cons.prems(3) Some Inl by simp
      have sl: "start_loop (launch env) (u # us) st (mgr w) = start_loop (launch env) us st (mgr w)"
        using Some Inl f by (simp add: start_stream_def case_prod_beta)
      from Cons.IH [OF Cons.prems(1) Cons.prems(2) pc] show ?thesis
        unfolding sl .
    next
      case (Inr p)
      obtain sid cmd where p: "p = (sid, cmd)" by (cases p)
      let ?r = "start_stream_finish (spawn (launch env u) cmd) (loop_time (launch env u)) u ?q sid
                  (stream_handler (mgr w))"
      let ?st = "if fst (fst ?r) then st @ [snd (fst ?r)] else st"
      let ?m1 = "(mgr w)\<lparr>stream_handler := snd ?r\<rparr>"
      let ?w1 = "resume env i w"
      have at: "pc (tasks w ! i) = AwaitSpawn u ?q sid cmd us st"
        using Cons.prems(3) Some Inr p by simp
      have m1: "mgr ?w1 = ?m1"
        using resume_at_spawn(1) [OF Cons.prems(1) Cons.prems(2) at, of env]
        by (simp add: after_spawn_def Let_def case_prod_beta)
      have pc1: "pc (tasks ?w1 ! i) = advance (launch env) us ?st (mgr ?w1)"
        using resume_at_spawn(2) [OF Cons.prems(1) Cons.prems(2) at, of env] m1
        by (simp add: after_spawn_def Let_def case_prod_beta)
      have i1: "i < length (tasks ?w1)" using Cons.prems(1) by (simp add: resume_length)
      have c1: "\<not> cancel_requested (tasks ?w1 ! i)"
        using Cons.prems(1) Cons.prems(2) by (simp add: resume_cancel_flag)
      from Cons.IH [OF i1 c1 pc1] obtain n where
        n: "pc (tasks (resume_n n env i ?w1) ! i) = Sleeping"
           "mgr (resume_n n env i ?w1) = snd (start_loop (launch env) us ?st (mgr ?w1))"
        by blast
      have sl: "start_loop (launch env) (u # us) st (mgr w) = start_loop (launch env) us ?st ?m1"
        using Some Inr p by (simp add: start_stream_def case_prod_beta Let_def)
      have "pc (tasks (resume_n (Suc n) env i w) ! i) = Sleeping
            \<and> mgr (resume_n (Suc n) env i w) = snd (start_loop (launch env) (u # us) st (mgr w))"
        using n m1 sl by simp
      then show ?thesis by blast
    qed
  qed
qed

lemma resume_n_step:
  assumes "\<exists>n. pc (tasks (resume_n n env i (resume env i w)) ! i) = Sleeping
               \<and> mgr (resume_n n env i (resume env i w)) = m"
  shows "\<exists>k. pc (tasks (resume_n k env i w) ! i) = Sleeping \<and> mgr (resume_n k env i w) = m"
proof -
  from assms obtain n where
    "pc (tasks (resume_n n env i (resume env i w)) ! i) = Sleeping
       \<and> mgr (resume_n n env i (resume env i w)) = m"
    by blast
  then have "pc (tasks (resume_n (Suc n) env i w) ! i) = Sleeping \<and> mgr (resume_n (Suc n) env i w) = m"
    by simp
  then show ?thesis by blast
qed

lemma tick_left_alone:
  assumes i: "i < length (tasks w)" and c: "\<not> cancel_requested (tasks w ! i)"
    and head: "pc (tasks w ! i) = NotStarted \<or> pc (tasks w ! i) = Sleeping"
    and run: "running (mgr w)"
  shows "\<exists>n. pc (tasks (resume_n n env i w) ! i) = Sleeping
             \<and> mgr (resume_n n env i w) = snd (snd (check_and_start_streams env (mgr w)))"
proof -
  let ?m1 = "(mgr w)\<lparr>last_check_time := wall_time env\<rparr>"
  let ?w1 = "resume env i w"
  have r1: "mgr ?w1 = snd (loop_head env (mgr w))" "pc (tasks ?w1 ! i) = fst (loop_head env (mgr w))"
    using i c head by (auto simp: resume_def Let_def case_prod_beta)
  have i1: "i < length (tasks ?w1)" using i by (simp add: resume_length)
  have c1: "\<not> cancel_requested (tasks ?w1 ! i)" using i c by (simp add: resume_cancel_flag)
  show ?thesis
  proof (cases "autotuned_streamers (mgr w) = [] \<or> \<not> twitch (mgr w)")
    case True
    then have "check_and_start_streams env (mgr w) = (Inr [], [], ?m1)"
      by (auto simp: check_and_start_streams_def check_live_status_def start_autotuned_streams_def Let_def)
    moreover have "pc (tasks (resume_n 0 env i ?w1) ! i) = Sleeping \<and> mgr (resume_n 0 env i ?w1) = ?m1"
      using r1 True run by (auto simp: loop_head_def Let_def)
    then have "\<exists>n. pc (tasks (resume_n n env i ?w1) ! i) = Sleeping \<and> mgr (resume_n n env i ?w1) = ?m1"
      by blast
    from resume_n_step [OF this] have
      "\<exists>k. pc (tasks (resume_n k env i w) ! i) = Sleeping \<and> mgr (resume_n k env i w) = ?m1" .
    ultimately show ?thesis by simp
  next
    case False
    then have lh: "loop_head env (mgr w) = (AwaitProvider, ?m1)"
      using run by (simp add: loop_head_def Let_def)
    have live: "check_live_status (provider env) ?m1 = live_usernames (provider env)"
      using False by (simp add: check_live_status_def)
    let ?live = "live_usernames (provider env)"
    let ?w2 = "resume env i ?w1"
    have r2: "mgr ?w2 = snd (after_provider env ?m1)" "pc (tasks ?w2 ! i) = fst (after_provider env ?m1)"
      using i1 c1 r1 lh by (auto simp: resume_def Let_def case_prod_beta)
    have i2: "i < length (tasks ?w2)" using i1 by (simp add: resume_length)
    have c2: "\<not> cancel_requested (tasks ?w2 ! i)" using i1 c1 by (simp add: resume_cancel_flag)
    show ?thesis
    proof (cases "?live = []")
      case True
      then have "check_and_start_streams env (mgr w) = (Inr [], [], ?m1)"
        using live by (simp add: check_and_start_streams_def start_autotuned_streams_def Let_def)
      moreover have "pc (tasks (resume_n 0 env i ?w2) ! i) = Sleeping \<and> mgr (resume_n 0 env i ?w2) = ?m1"
        using r2 True by (simp add: after_provider_def Let_def)
      then have "\<exists>n. pc (tasks (resume_n n env i ?w2) ! i) = Sleeping \<and> mgr (resume_n n env i ?w2) = ?m1"
        by blast
      from resume_n_step [OF resume_n_step [OF this]] have
        "\<exists>k. pc (tasks (resume_n k env i w) ! i) = Sleeping \<and> mgr (resume_n k env i w) = ?m1" .
      ultimately show ?thesis by simp
    next
      case nonempty: False
      let ?m2 = "?m1\<lparr>currently_live := set ?live\<rparr>"
      let ?admitted = "limit_streams (loop_clock env) ?m2
                         (streams_to_start (loop_clock env) ?m2
                            (filter (\<lambda>u. u \<notin> currently_live ?m1) ?live))"
      have m2: "mgr ?w2 = ?m2" and pc2: "pc (tasks ?w2 ! i) = advance (launch env) ?admitted [] (mgr ?w2)"
        using r2 nonempty by (simp_all add: after_provider_def Let_def)
      from advance_runs_start_loop [OF i2 c2 pc2] obtain n where
        n: "pc (tasks (resume_n n env i ?w2) ! i) = Sleeping"
           "mgr (resume_n n env i ?w2) = snd (start_loop (launch env) ?admitted [] (mgr ?w2))"
        by blast
      have "snd (snd (check_and_start_streams env (mgr w)))
              = snd (start_loop (launch env) ?admitted [] ?m2)"
        using nonempty live
        by (simp add: check_and_start_streams_def Let_def start_autotuned_streams_state)
      with n m2 have "pc (tasks (resume_n n env i ?w2) ! i) = Sleeping
          \<and> mgr (resume_n n env i ?w2) = snd (snd (check_and_start_streams env (mgr w)))"
        by simp
      then have "\<exists>n. pc (tasks (resume_n n env i ?w2) ! i) = Sleeping
          \<and> mgr (resume_n n env i ?w2) = snd (snd (check_and_start_streams env (mgr w)))"
        by blast
      from resume_n_step [OF resume_n_step [OF this]] show ?thesis .
    qed
  qed
qed

text \<open>
  C3, as the claim words it, fails. \<open>in_tick_world\<close> is reached from \<open>start()\<close> by two
  steps of the check task: its tick is in flight, suspended in the launch for \<open>a\<close>, with
  \<open>b\<close> admitted and still to be started. Left alone, the task completes the tick
  (\<open>tick_left_alone\<close>), here in two more steps: both streams are registered and the
  task sleeps. When \<open>stop()\<close> is
  called at that point, the next step of the task ends it: neither \<open>a\<close> nor \<open>b\<close> is
  registered.
\<close>

theorem stop_interrupts_tick_in_flight:
  "running (mgr in_tick_world)
   \<and> map pc (tasks in_tick_world)
       = [AwaitSpawn ''a'' (PStr ''best'') ''a_best_0a1b2c3d''
            [''streamlink'', ''https://twitch.tv/a'', ''best'', ''--twitch-disable-ads'']
            [''b''] []]
   \<and> map pc (tasks (resume good_tick 0 (resume good_tick 0 in_tick_world))) = [Sleeping]
   \<and> map fst (active_streams (stream_handler (mgr (resume good_tick 0 (resume good_tick 0 in_tick_world)))))
       = [''a_best_0a1b2c3d'', ''b_best_0a1b2c3d'']
   \<and> map pc (tasks (resume good_tick 0 (stop in_tick_world))) = [Finished]
   \<and> active_streams (stream_handler (mgr (resume good_tick 0 (stop in_tick_world)))) = []"
  unfolding in_tick_world_eq
  by (simp add: stop_def cancel_def resume_def after_spawn_def tick_eval)

text \<open>
  C3, amended. \<open>stop()\<close> is idempotent; after it the manager is not running and holds
  no task. It requests the cancellation of the check task: whatever that task was
  suspended in (a tick in flight as well as the sleep between two ticks), its next
  step ends it there, with the manager and the registry as \<open>stop()\<close> left them, and
  no later step of it does anything: the rest of a tick in flight is not run. In a
  state that \<open>start\<close>, \<open>stop\<close> and the steps of the tasks can reach (\<open>loop_inv\<close>), no
  schedule of the event loop after \<open>stop()\<close> changes the manager or the registry: no
  further tick starts.
\<close>

theorem stop_cancels_loop_task:
  "stop (stop w) = stop w
   \<and> \<not> running (mgr (stop w))
   \<and> (running (mgr w) \<longrightarrow> check_task (mgr (stop w)) = None)
   \<and> (running (mgr w) \<and> check_task (mgr w) = Some i \<and> i < length (tasks w)
        \<and> pc (tasks w ! i) \<noteq> Finished \<longrightarrow>
        resume env i (stop w)
          = w\<lparr>mgr := (mgr w)\<lparr>running := False, check_task := None\<rparr>,
              tasks := (tasks w)[i := (tasks w ! i)\<lparr>cancel_requested := True, pc := Finished\<rparr>]\<rparr>
        \<and> resume env' i (resume env i (stop w)) = resume env i (stop w))
   \<and> (loop_inv w \<longrightarrow> mgr (run_schedule sched (stop w)) = mgr (stop w))"
proof -
  have basic:
    "stop (stop w) = stop w
     \<and> \<not> running (mgr (stop w))
     \<and> (running (mgr w) \<longrightarrow> check_task (mgr (stop w)) = None)
     \<and> (running (mgr w) \<and> check_task (mgr w) = Some i \<and> i < length (tasks w)
          \<and> pc (tasks w ! i) \<noteq> Finished \<longrightarrow>
          resume env i (stop w)
            = w\<lparr>mgr := (mgr w)\<lparr>running := False, check_task := None\<rparr>,
                tasks := (tasks w)[i := (tasks w ! i)\<lparr>cancel_requested := True, pc := Finished\<rparr>]\<rparr>
          \<and> resume env' i (resume env i (stop w)) = resume env i (stop w))"
    by (auto simp: stop_def cancel_def resume_def Let_def split: option.splits)
  have later: "mgr (run_schedule sched (stop w)) = mgr (stop w)" if "loop_inv w"
    using run_schedule_all_cancelled [OF stop_all_cancelled [OF that]] .
  show ?thesis using basic later by blast
qed

theorem stop_cancels_loop_task_witness:
  "running (mgr in_tick_world)
   \<and> check_task (mgr in_tick_world) = Some 0
   \<and> pc (tasks in_tick_world ! 0) \<noteq> Finished
   \<and> loop_inv in_tick_world
   \<and> stop (stop in_tick_world) = stop in_tick_world
   \<and> resume good_tick 0 (stop in_tick_world)
       = in_tick_world
           \<lparr>mgr := (mgr in_tick_world)\<lparr>running := False, check_task := None\<rparr>,
            tasks := (tasks in_tick_world)
                       [0 := (tasks in_tick_world ! 0)\<lparr>cancel_requested := True, pc := Finished\<rparr>]\<rparr>
   \<and> mgr (run_schedule [(good_tick, 0), (good_tick, 0), (good_tick, 0)] (stop in_tick_world))
       = mgr (stop in_tick_world)"
proof -
  have h: "running (mgr in_tick_world)" "check_task (mgr in_tick_world) = Some 0"
    "0 < length (tasks in_tick_world)" "pc (tasks in_tick_world ! 0) \<noteq> Finished"
    unfolding in_tick_world_eq by simp_all
  have inv: "loop_inv in_tick_world"
    unfolding in_tick_world_eq by (simp add: loop_inv_def)
  show ?thesis
    using h inv stop_cancels_loop_task
              [where w = in_tick_world and i = 0 and env = good_tick and env' = good_tick
                 and sched = "[(good_tick, 0), (good_tick, 0), (good_tick, 0)]"]
    by blast
qed


end
